theory Spec2Isabelle
  imports Main "HOL-Library.Word"
begin

unbundle bit_operations_syntax

section \<open>Kakoune strings: \<^verbatim>\<open>src/string.hh\<close>\<close>

text \<open>
  The header declares the owning \<^verbatim>\<open>String\<close> (a small-string-optimised cell
  \<^verbatim>\<open>String::Data\<close>), the non-owning \<^verbatim>\<open>StringView\<close> and the mixin
  \<^verbatim>\<open>StringOps\<close> shared by both. Pointers are addresses into one flat byte memory,
  address 0 being \<^verbatim>\<open>nullptr\<close>. Every address can be read; which addresses belong to
  a live object is the business of the hypotheses of the theorems.
\<close>

subsection \<open>Bytes, addresses, C integers\<close>

type_synonym byte = "8 word"
type_synonym addr = nat
type_synonym memory = "addr \<Rightarrow> byte"

text \<open>
  \<^verbatim>\<open>kak_assert\<close> halts on a false condition (\<open>ContractViolation\<close>); arithmetic on
  \<^verbatim>\<open>int\<close> that leaves its range is undefined (\<open>SignedOverflow\<close>), as is a division by
  zero; the allocator may fail, and a capacity at or beyond \<^verbatim>\<open>Long::max_capacity\<close>
  cannot be represented.
\<close>

datatype error = ContractViolation | SignedOverflow | DivisionByZero
  | AllocationFailure | CapacityExceeded

definition INT_MAX :: int where
  "INT_MAX = 2147483647"

definition INT_MIN :: int where
  "INT_MIN = - INT_MAX - 1"

text \<open>
  \<^verbatim>\<open>ByteCount\<close>, \<^verbatim>\<open>CharCount\<close> and \<^verbatim>\<open>ColumnCount\<close> come from
  \<^verbatim>\<open>units.hh\<close>; the header converts them from and to \<^verbatim>\<open>int\<close> freely
  (\<^verbatim>\<open>(int)str.length()\<close>, the default \<^verbatim>\<open>length = INT_MAX\<close>), so a count is an
  \<^verbatim>\<open>int\<close>: a mathematical integer within \<open>[INT_MIN, INT_MAX]\<close>.
\<close>

definition is_int :: "int \<Rightarrow> bool" where
  "is_int x = (INT_MIN \<le> x \<and> x \<le> INT_MAX)"

definition int_add :: "int \<Rightarrow> int \<Rightarrow> error + int" where
  "int_add a b = (if is_int (a + b) then Inr (a + b) else Inl SignedOverflow)"

definition int_mul :: "int \<Rightarrow> int \<Rightarrow> error + int" where
  "int_mul a b = (if is_int (a * b) then Inr (a * b) else Inl SignedOverflow)"

text \<open>The narrowing conversion \<^verbatim>\<open>(int)x\<close> of a wider integer keeps the low 32 bits.\<close>

definition int_cast :: "int \<Rightarrow> int" where
  "int_cast x = sint (word_of_int x :: 32 word)"

text \<open>Pointer plus count, \<^verbatim>\<open>p + (int)n\<close>.\<close>

definition ptr_add :: "addr \<Rightarrow> int \<Rightarrow> addr" where
  "ptr_add p n = nat (int p + n)"

subsection \<open>\<^verbatim>\<open>StringView\<close>\<close>

record StringView =
  m_data :: addr
  m_length :: int


text \<open>\<^verbatim>\<open>StringOps::begin\<close> and \<^verbatim>\<open>StringOps::end\<close> over \<^verbatim>\<open>data()\<close> and \<^verbatim>\<open>length()\<close>.\<close>

definition begin_of :: "addr \<Rightarrow> int \<Rightarrow> addr" where
  "begin_of d len = d"

definition end_of :: "addr \<Rightarrow> int \<Rightarrow> addr" where
  "end_of d len = ptr_add d len"


subsection \<open>\<^verbatim>\<open>strlen\<close> and the view of a C string\<close>

text \<open>
  \<^verbatim>\<open>constexpr ByteCount strlen(const char* s) { return *s == 0 ? 0 : strlen(s+1) + 1; }\<close>
  The recursion ends only at a null byte: \<open>None\<close> is the scan that never ends.
\<close>

definition count_succ :: "error + int \<Rightarrow> error + int" where
  "count_succ r = (case r of Inl e \<Rightarrow> Inl e | Inr n \<Rightarrow> int_add n 1)"

partial_function (option) strlen :: "memory \<Rightarrow> addr \<Rightarrow> (error + int) option" where
  "strlen m s =
     (if m s = 0 then Some (Inr 0)
      else Option.bind (strlen m (s + 1)) (\<lambda>r. Some (count_succ r)))"

text \<open>
  \<^verbatim>\<open>constexpr StringView(const char* data) : m_data{data}, m_length{data ? strlen(data) : 0} {}\<close>
\<close>

definition StringView_cstr :: "memory \<Rightarrow> addr \<Rightarrow> (error + StringView) option" where
  "StringView_cstr m d =
     (if d \<noteq> 0
      then Option.bind (strlen m d)
             (\<lambda>r. Some (case r of Inl e \<Rightarrow> Inl e
                              | Inr n \<Rightarrow> Inr \<lparr>m_data = d, m_length = n\<rparr>))
      else Some (Inr \<lparr>m_data = d, m_length = 0\<rparr>))"

subsection \<open>\<^verbatim>\<open>StringOps::substr\<close>\<close>


definition substr_byte :: "addr \<Rightarrow> int \<Rightarrow> int \<Rightarrow> int \<Rightarrow> error + StringView" where
  "substr_byte d str_len from len =
     (let len = (if len < 0 then INT_MAX else len)
      in if \<not> (from \<ge> 0 \<and> from \<le> str_len) then Inl ContractViolation
         else Inr \<lparr>m_data = ptr_add d from, m_length = min (str_len - from) len\<rparr>)"




subsection \<open>Comparison of views\<close>









section \<open>The owning string\<close>

subsection \<open>Memory and the platform\<close>

text \<open>
  The layout is that of an LP64 little-endian platform: \<^verbatim>\<open>size_t\<close> and pointers take
  \<^verbatim>\<open>sizeof(size_t)\<close> bytes, least significant byte first, and the three fields of
  \<^verbatim>\<open>Long\<close> follow each other without padding. The header's comment names the two
  byte orders; on this one the last byte of the cell is the most significant byte of
  \<^verbatim>\<open>l.capacity\<close>.
\<close>

definition sizeof_size_t :: nat where
  "sizeof_size_t = 8"

definition sizeof_Long :: nat where
  "sizeof_Long = 3 * sizeof_size_t"

definition size_t_range :: nat where
  "size_t_range = 2 ^ (8 * sizeof_size_t)"

text \<open>The conversion \<^verbatim>\<open>(size_t)n\<close> of a signed integer is modular.\<close>

definition to_size_t :: "int \<Rightarrow> nat" where
  "to_size_t n = nat (n mod int size_t_range)"

definition load_bytes :: "memory \<Rightarrow> addr \<Rightarrow> nat \<Rightarrow> byte list" where
  "load_bytes m a n = map m [a ..< a + n]"

definition store_bytes :: "memory \<Rightarrow> addr \<Rightarrow> byte list \<Rightarrow> memory" where
  "store_bytes m a bs = (\<lambda>x. if a \<le> x \<and> x < a + length bs then bs ! (x - a) else m x)"

fun le_decode :: "byte list \<Rightarrow> nat" where
  "le_decode [] = 0"
| "le_decode (b # bs) = unat b + 256 * le_decode bs"

fun le_encode :: "nat \<Rightarrow> nat \<Rightarrow> byte list" where
  "le_encode 0 v = []"
| "le_encode (Suc n) v = of_nat v # le_encode n (v div 256)"

definition load_word :: "memory \<Rightarrow> addr \<Rightarrow> nat" where
  "load_word m a = le_decode (load_bytes m a sizeof_size_t)"

definition store_word :: "memory \<Rightarrow> addr \<Rightarrow> nat \<Rightarrow> memory" where
  "store_word m a v = store_bytes m a (le_encode sizeof_size_t v)"

subsection \<open>\<^verbatim>\<open>String::Data\<close>: the cell\<close>

text \<open>
  \<^verbatim>\<open>union Data { struct Long { char* ptr; size_t size; size_t capacity; } l;
  struct Short { char string[capacity+1]; unsigned char size; } s; }\<close>
  A cell is the address \<open>this\<close> of its \<^verbatim>\<open>sizeof(Long)\<close> bytes; the two layouts
  read the same bytes.
\<close>

definition max_capacity :: nat where
  "max_capacity = push_bit (8 * (sizeof_size_t - 1)) 1"

definition Short_capacity :: nat where
  "Short_capacity = sizeof_Long - 2"

definition l_ptr_at :: "addr \<Rightarrow> addr" where
  "l_ptr_at this = this"

definition l_size_at :: "addr \<Rightarrow> addr" where
  "l_size_at this = this + sizeof_size_t"

definition l_capacity_at :: "addr \<Rightarrow> addr" where
  "l_capacity_at this = this + 2 * sizeof_size_t"

definition s_string_at :: "addr \<Rightarrow> addr" where
  "s_string_at this = this"

definition s_size_at :: "addr \<Rightarrow> addr" where
  "s_size_at this = this + (Short_capacity + 1)"

definition l_ptr :: "memory \<Rightarrow> addr \<Rightarrow> addr" where
  "l_ptr m this = load_word m (l_ptr_at this)"

definition l_size :: "memory \<Rightarrow> addr \<Rightarrow> nat" where
  "l_size m this = load_word m (l_size_at this)"

definition l_capacity :: "memory \<Rightarrow> addr \<Rightarrow> nat" where
  "l_capacity m this = load_word m (l_capacity_at this)"

definition s_size :: "memory \<Rightarrow> addr \<Rightarrow> byte" where
  "s_size m this = m (s_size_at this)"

text \<open>\<^verbatim>\<open>bool is_long() const { return (s.size & 1) == 0; }\<close>\<close>

definition is_long :: "memory \<Rightarrow> addr \<Rightarrow> bool" where
  "is_long m this = (s_size m this AND 1 = 0)"

text \<open>\<^verbatim>\<open>size_t size() const { return is_long() ? l.size : (s.size >> 1); }\<close>\<close>

definition Data_size :: "memory \<Rightarrow> addr \<Rightarrow> nat" where
  "Data_size m this = (if is_long m this then l_size m this else unat (drop_bit 1 (s_size m this)))"

text \<open>\<^verbatim>\<open>size_t capacity() const { return is_long() ? l.capacity : Short::capacity; }\<close>\<close>

definition Data_capacity :: "memory \<Rightarrow> addr \<Rightarrow> nat" where
  "Data_capacity m this = (if is_long m this then l_capacity m this else Short_capacity)"

text \<open>\<^verbatim>\<open>const char* data() const { return is_long() ? l.ptr : s.string; }\<close>\<close>

definition Data_data :: "memory \<Rightarrow> addr \<Rightarrow> addr" where
  "Data_data m this = (if is_long m this then l_ptr m this else s_string_at this)"

text \<open>\<^verbatim>\<open>void set_empty() { s.size = 1; }\<close>\<close>

definition set_empty :: "memory \<Rightarrow> addr \<Rightarrow> memory" where
  "set_empty m this = m(s_size_at this := 1)"

text \<open>The assignment \<^verbatim>\<open>l.capacity = c\<close>.\<close>

definition set_l_capacity :: "memory \<Rightarrow> addr \<Rightarrow> nat \<Rightarrow> memory" where
  "set_l_capacity m this c = store_word m (l_capacity_at this) c"

subsection \<open>The machine: memory and allocator\<close>

text \<open>
  Modelled from the spec: \<^verbatim>\<open>Allocator<char, MemoryDomain::String>\<close> of
  \<^verbatim>\<open>memory.hh\<close>. "The core requests raw byte buffers" and "must receive back
  memory", "released via a matching deallocate call; allocation failure is reported". The
  free store begins at \<open>brk\<close>; a block is cut from its start, so it overlaps no object
  below \<open>brk\<close>; a request that leaves the address range fails.
\<close>

record machine =
  mem :: memory
  brk :: addr
  released :: "addr list"

definition allocate :: "machine \<Rightarrow> nat \<Rightarrow> error + addr \<times> machine" where
  "allocate st n =
     (if brk st + n < size_t_range then Inr (brk st, st\<lparr>brk := brk st + n\<rparr>)
      else Inl AllocationFailure)"

definition deallocate :: "machine \<Rightarrow> addr \<Rightarrow> machine" where
  "deallocate st p = st\<lparr>released := p # released st\<rparr>"

subsection \<open>The operations of the cell defined in \<^verbatim>\<open>string.cc\<close>\<close>

text \<open>
  Modelled from the spec: \<^verbatim>\<open>Data::set_short\<close> and \<^verbatim>\<open>Data::set_size\<close>, declared in
  the header and defined in \<^verbatim>\<open>string.cc\<close>. Inline layout: "a fixed-size byte array
  plus a one-byte length field", with "bit = 1 means inline layout active, length = stored
  value >> 1"; the owning string's buffer is "null-terminated".
\<close>

definition set_short :: "memory \<Rightarrow> addr \<Rightarrow> byte list \<Rightarrow> memory" where
  "set_short m this bs =
     (let m1 = m(s_size_at this := of_nat (2 * length bs + 1));
          m2 = store_bytes m1 (s_string_at this) bs
      in m2(s_string_at this + length bs := 0))"

definition set_size :: "memory \<Rightarrow> addr \<Rightarrow> nat \<Rightarrow> memory" where
  "set_size m this n =
     (if is_long m this then store_word m (l_size_at this) n
      else m(s_size_at this := of_nat (2 * n + 1)))"

text \<open>
  Modelled from the spec: \<^verbatim>\<open>Data::Data(const char* data, size_t size, size_t capacity)\<close>, declared in
  the header and defined in \<^verbatim>\<open>string.cc\<close>; \<open>bs\<close> is the \<open>size\<close> bytes at \<open>data\<close>.
  The cell "stores short payloads inline (no heap allocation)"; beyond the inline
  capacity the heap layout holds "a pointer to a separately allocated buffer, plus explicit
  size and capacity fields", "capacity is capped" below \<^verbatim>\<open>max_capacity\<close>, and "size and
  capacity are only updated after the allocation and copy both succeed".
\<close>

definition Data_ctor :: "machine \<Rightarrow> addr \<Rightarrow> byte list \<Rightarrow> nat \<Rightarrow> error + machine" where
  "Data_ctor st this bs capacity =
     (if capacity > Short_capacity then
        if \<not> capacity < max_capacity then Inl CapacityExceeded
        else (case allocate st (capacity + 1) of
                Inl e \<Rightarrow> Inl e
              | Inr (p, st1) \<Rightarrow>
                  let m1 = store_bytes (mem st1) p (bs @ [0]);
                      m2 = store_word m1 (l_ptr_at this) p;
                      m3 = store_word m2 (l_size_at this) (length bs)
                  in Inr (st1\<lparr>mem := set_l_capacity m3 this capacity\<rparr>))
      else Inr (st\<lparr>mem := set_short (mem st) this bs\<rparr>))"

text \<open>
  Modelled from the spec: \<^verbatim>\<open>Data::release\<close>, declared in the header and defined in
  \<^verbatim>\<open>string.cc\<close>: it "releases the heap allocation iff in heap mode".
\<close>

definition release :: "machine \<Rightarrow> addr \<Rightarrow> machine" where
  "release st this = (if is_long (mem st) this then deallocate st (l_ptr (mem st) this) else st)"

text \<open>
  Modelled from the spec: \<^verbatim>\<open>Data::Data(Data&& other)\<close> and
  \<^verbatim>\<open>Data::operator=(Data&& other)\<close>, declared \<^verbatim>\<open>noexcept\<close> in the header and defined
  in \<^verbatim>\<open>string.cc\<close>. "Move construction/assignment transfers the bit pattern and resets
  source to the canonical empty-inline state (size 0, inline mode); never throws, never
  allocates." The assignment first releases what the target owns.
\<close>

definition transfer :: "memory \<Rightarrow> addr \<Rightarrow> addr \<Rightarrow> memory" where
  "transfer m this other = set_empty (store_bytes m this (load_bytes m other sizeof_Long)) other"

definition Data_move_ctor :: "machine \<Rightarrow> addr \<Rightarrow> addr \<Rightarrow> machine" where
  "Data_move_ctor st this other = st\<lparr>mem := transfer (mem st) this other\<rparr>"

definition Data_move_assign :: "machine \<Rightarrow> addr \<Rightarrow> addr \<Rightarrow> machine" where
  "Data_move_assign st this other =
     (let st1 = release st this in st1\<lparr>mem := transfer (mem st1) this other\<rparr>)"

subsection \<open>\<^verbatim>\<open>String\<close>\<close>

text \<open>
  A \<^verbatim>\<open>String\<close> has the one member \<^verbatim>\<open>m_data\<close>, at its own address.
  \<^verbatim>\<open>String() {}\<close> runs \<^verbatim>\<open>Data() { set_empty(); }\<close>;
  \<^verbatim>\<open>String(const char* content, ByteCount len) : m_data(content, (size_t)len) {}\<close> runs
  \<^verbatim>\<open>Data(data, size) : Data(data, size, size)\<close>;
  \<^verbatim>\<open>String(const char* content) : m_data(content, (size_t)strlen(content)) {}\<close>.
\<close>

definition String_default :: "machine \<Rightarrow> addr \<Rightarrow> machine" where
  "String_default st this = st\<lparr>mem := set_empty (mem st) this\<rparr>"

definition String_ctor :: "machine \<Rightarrow> addr \<Rightarrow> addr \<Rightarrow> int \<Rightarrow> error + machine" where
  "String_ctor st this content len =
     Data_ctor st this (load_bytes (mem st) content (to_size_t len)) (to_size_t len)"

definition String_cstr :: "machine \<Rightarrow> addr \<Rightarrow> addr \<Rightarrow> (error + machine) option" where
  "String_cstr st this content =
     Option.bind (strlen (mem st) content)
       (\<lambda>r. Some (case r of Inl e \<Rightarrow> Inl e | Inr len \<Rightarrow> String_ctor st this content len))"

text \<open>
  \<^verbatim>\<open>char* data() { return m_data.data(); }\<close> and
  \<^verbatim>\<open>ByteCount length() const { return m_data.size(); }\<close>
\<close>

definition String_data :: "memory \<Rightarrow> addr \<Rightarrow> addr" where
  "String_data m this = Data_data m this"

definition String_length :: "memory \<Rightarrow> addr \<Rightarrow> int" where
  "String_length m this = int_cast (int (Data_size m this))"

text \<open>\<^verbatim>\<open>StringView(const String& str) : m_data{str.data()}, m_length{(int)str.length()} {}\<close>\<close>

definition StringView_of_String :: "memory \<Rightarrow> addr \<Rightarrow> StringView" where
  "StringView_of_String m this =
     \<lparr>m_data = String_data m this, m_length = int_cast (String_length m this)\<rparr>"

text \<open>
  The move of a \<^verbatim>\<open>String\<close> is the implicit one: it moves \<^verbatim>\<open>m_data\<close>.
\<close>

definition String_move_ctor :: "machine \<Rightarrow> addr \<Rightarrow> addr \<Rightarrow> machine" where
  "String_move_ctor st this other = Data_move_ctor st this other"

definition String_move_assign :: "machine \<Rightarrow> addr \<Rightarrow> addr \<Rightarrow> machine" where
  "String_move_assign st this other = Data_move_assign st this other"

text \<open>Two address ranges, each a start and a number of bytes, that share no byte.\<close>

definition apart :: "addr \<Rightarrow> nat \<Rightarrow> addr \<Rightarrow> nat \<Rightarrow> bool" where
  "apart a n b k = (a + n \<le> b \<or> b + k \<le> a)"

text \<open>
  The bytes a string holds, and what makes a cell well-formed in a machine: the cell
  lies below the free store; an inline length fits the inline array; a heap block lies
  below the free store and apart from the cell, with \<open>size \<le> capacity < max_capacity\<close>.
\<close>

definition String_bytes :: "memory \<Rightarrow> addr \<Rightarrow> byte list" where
  "String_bytes m this = load_bytes m (Data_data m this) (Data_size m this)"

definition cell_ok :: "machine \<Rightarrow> addr \<Rightarrow> bool" where
  "cell_ok st this =
     (this + sizeof_Long \<le> brk st \<and>
      (if is_long (mem st) this
       then l_size (mem st) this \<le> l_capacity (mem st) this \<and>
            l_capacity (mem st) this < max_capacity \<and>
            apart this sizeof_Long (l_ptr (mem st) this) (l_capacity (mem st) this + 1) \<and>
            l_ptr (mem st) this + l_capacity (mem st) this + 1 \<le> brk st
       else Data_size (mem st) this \<le> Short_capacity))"

subsection \<open>\<^verbatim>\<open>StringView::ZeroTerminatedString\<close>\<close>





subsection \<open>Growth of the cell\<close>

text \<open>
  Modelled from the spec: \<^verbatim>\<open>Data::reserve\<close> (with \<^verbatim>\<open>copy = true\<close>), declared in the
  header and defined in \<^verbatim>\<open>string.cc\<close>. "If \<open>n \<le> capacity()\<close>, no-op. Otherwise
  allocates a new heap buffer of size \<open>\<ge> n\<close> (grow by at least 2x and at least \<open>n\<close>,
  whichever larger), copies existing bytes, releases any prior heap allocation, and
  switches to heap mode"; the capacity "is capped" below \<^verbatim>\<open>max_capacity\<close>.
\<close>

definition Data_reserve :: "machine \<Rightarrow> addr \<Rightarrow> nat \<Rightarrow> error + machine" where
  "Data_reserve st this new_capacity =
     (if new_capacity \<le> Data_capacity (mem st) this then Inr st
      else (let new_capacity = max (2 * Data_capacity (mem st) this) new_capacity
            in if \<not> new_capacity < max_capacity then Inl CapacityExceeded
               else (case allocate st (new_capacity + 1) of
                       Inl e \<Rightarrow> Inl e
                     | Inr (p, st1) \<Rightarrow>
                         let n = Data_size (mem st1) this;
                             old = load_bytes (mem st1) (Data_data (mem st1) this) n;
                             st2 = release (st1\<lparr>mem := store_bytes (mem st1) p old\<rparr>) this;
                             m2 = store_word (mem st2) (l_ptr_at this) p;
                             m3 = store_word m2 (l_size_at this) n
                         in Inr (st2\<lparr>mem := set_l_capacity m3 this new_capacity\<rparr>))))"

text \<open>
  Modelled from the spec: \<^verbatim>\<open>Data::append\<close>, declared in the header and defined in
  \<^verbatim>\<open>string.cc\<close>: it "ensures capacity for \<open>size()+len\<close> via reserve, copies bytes at the
  tail, updates size"; \<open>bs\<close> is the \<open>len\<close> bytes at \<open>str\<close>, and the buffer stays
  "null-terminated".
\<close>

definition Data_append :: "machine \<Rightarrow> addr \<Rightarrow> byte list \<Rightarrow> error + machine" where
  "Data_append st this bs =
     (case Data_reserve st this (Data_size (mem st) this + length bs) of
        Inl e \<Rightarrow> Inl e
      | Inr st1 \<Rightarrow>
          let n = Data_size (mem st1) this;
              m1 = store_bytes (mem st1) (Data_data (mem st1) this + n) (bs @ [0])
          in Inr (st1\<lparr>mem := set_size m1 this (n + length bs)\<rparr>))"

text \<open>
  \<^verbatim>\<open>void reserve(ByteCount size) { m_data.reserve((size_t)size); }\<close> and
  \<^verbatim>\<open>void push_back(char c) { m_data.append(&c, 1); }\<close>
\<close>

definition String_reserve :: "machine \<Rightarrow> addr \<Rightarrow> int \<Rightarrow> error + machine" where
  "String_reserve st this sz = Data_reserve st this (to_size_t sz)"

definition String_push_back :: "machine \<Rightarrow> addr \<Rightarrow> byte \<Rightarrow> error + machine" where
  "String_push_back st this c = Data_append st this [c]"

subsection \<open>Strings of a repeated codepoint\<close>

text \<open>
  \<^verbatim>\<open>utf8::codepoint_size\<close>, \<^verbatim>\<open>utf8::dump\<close>, \<^verbatim>\<open>utf8::distance\<close>,
  \<^verbatim>\<open>utf8::column_distance\<close> and \<^verbatim>\<open>codepoint_width\<close> belong to \<^verbatim>\<open>utf8.hh\<close> and
  \<^verbatim>\<open>unicode.hh\<close>: parameters. \<open>dump cp\<close> is the bytes \<^verbatim>\<open>utf8::dump\<close> writes for
  \<open>cp\<close>; \<^verbatim>\<open>utf8::dump(std::back_inserter(*this), cp)\<close> appends them one
  \<^verbatim>\<open>push_back\<close> at a time.
\<close>

type_synonym codepoint = nat
type_synonym dump_fn = "codepoint \<Rightarrow> byte list"
type_synonym distance_fn = "memory \<Rightarrow> addr \<Rightarrow> addr \<Rightarrow> int"

fun back_insert :: "machine \<Rightarrow> addr \<Rightarrow> byte list \<Rightarrow> error + machine" where
  "back_insert st this [] = Inr st"
| "back_insert st this (c # cs) =
     (case String_push_back st this c of
        Inl e \<Rightarrow> Inl e
      | Inr st1 \<Rightarrow> back_insert st1 this cs)"

text \<open>
  \<^verbatim>\<open>while (count-- > 0) utf8::dump(std::back_inserter(*this), cp);\<close>
  The decrement also runs when the test fails, and leaves the range of \<^verbatim>\<open>int\<close> at
  \<open>INT_MIN\<close>.
\<close>

function dump_loop :: "dump_fn \<Rightarrow> machine \<Rightarrow> addr \<Rightarrow> codepoint \<Rightarrow> int \<Rightarrow> error + machine" where
  "dump_loop dump st this cp count =
     (if count > 0
      then (case back_insert st this (dump cp) of
              Inl e \<Rightarrow> Inl e
            | Inr st1 \<Rightarrow> dump_loop dump st1 this cp (count - 1))
      else if count = INT_MIN then Inl SignedOverflow
      else Inr st)"
  by pat_completeness auto
termination
  by (relation "measure (\<lambda>(dump, st, this, cp, count). nat count)") auto

text \<open>
  \<^verbatim>\<open>explicit String(Codepoint cp, CharCount count = 1)
  { reserve(utf8::codepoint_size(cp) * (int)count);
    while (count-- > 0) utf8::dump(std::back_inserter(*this), cp); }\<close>
\<close>

definition String_repeat_char ::
  "(codepoint \<Rightarrow> int) \<Rightarrow> dump_fn \<Rightarrow> machine \<Rightarrow> addr \<Rightarrow> codepoint \<Rightarrow> int \<Rightarrow> error + machine" where
  "String_repeat_char codepoint_size dump st this cp count =
     (let st0 = String_default st this
      in case int_mul (codepoint_size cp) count of
           Inl e \<Rightarrow> Inl e
         | Inr nbytes \<Rightarrow>
             (case String_reserve st0 this nbytes of
                Inl e \<Rightarrow> Inl e
              | Inr st1 \<Rightarrow> dump_loop dump st1 this cp count))"

text \<open>The division and remainder of C++ truncate towards zero.\<close>

definition c_div :: "int \<Rightarrow> int \<Rightarrow> int" where
  "c_div a b = sgn a * sgn b * (\<bar>a\<bar> div \<bar>b\<bar>)"

definition c_mod :: "int \<Rightarrow> int \<Rightarrow> int" where
  "c_mod a b = a - b * c_div a b"

text \<open>
  \<^verbatim>\<open>explicit String(Codepoint cp, ColumnCount count)
  { kak_assert(count % codepoint_width(cp) == 0);
    int cp_count = (int)(count / std::max(codepoint_width(cp), 1_col));
    reserve(utf8::codepoint_size(cp) * cp_count);
    while (cp_count-- > 0) utf8::dump(std::back_inserter(*this), cp); }\<close>
  The assertion divides by the width itself.
\<close>

definition String_repeat_column ::
  "(codepoint \<Rightarrow> int) \<Rightarrow> dump_fn \<Rightarrow> (codepoint \<Rightarrow> int) \<Rightarrow> machine \<Rightarrow> addr \<Rightarrow> codepoint \<Rightarrow> int
     \<Rightarrow> error + machine" where
  "String_repeat_column codepoint_size dump codepoint_width st this cp count =
     (let st0 = String_default st this
      in if codepoint_width cp = 0 then Inl DivisionByZero
         else if \<not> c_mod count (codepoint_width cp) = 0 then Inl ContractViolation
         else (let cp_count = int_cast (c_div count (max (codepoint_width cp) 1))
               in case int_mul (codepoint_size cp) cp_count of
                    Inl e \<Rightarrow> Inl e
                  | Inr nbytes \<Rightarrow>
                      (case String_reserve st0 this nbytes of
                         Inl e \<Rightarrow> Inl e
                       | Inr st1 \<Rightarrow> dump_loop dump st1 this cp cp_count)))"

text \<open>
  \<^verbatim>\<open>CharCount char_length() const { return utf8::distance(begin(), end()); }\<close> and
  \<^verbatim>\<open>ColumnCount column_length() const { return utf8::column_distance(begin(), end()); }\<close>
\<close>

definition char_length :: "distance_fn \<Rightarrow> memory \<Rightarrow> addr \<Rightarrow> int" where
  "char_length distance m this =
     distance m (begin_of (String_data m this) (String_length m this))
       (end_of (String_data m this) (String_length m this))"

definition column_length :: "distance_fn \<Rightarrow> memory \<Rightarrow> addr \<Rightarrow> int" where
  "column_length column_distance m this =
     column_distance m (begin_of (String_data m this) (String_length m this))
       (end_of (String_data m this) (String_length m this))"

text \<open>
  What the string relies on from its UTF-8 collaborator, "an external, already-correct
  dependency": the size of a codepoint is the number of bytes dumped for it; over the
  encoding of a sequence of codepoints, the distance is the number of codepoints and the
  column distance is the sum of their widths.
\<close>

definition utf8_bytes :: "dump_fn \<Rightarrow> codepoint list \<Rightarrow> byte list" where
  "utf8_bytes dump cps = concat (map dump cps)"

definition counts_characters :: "dump_fn \<Rightarrow> distance_fn \<Rightarrow> bool" where
  "counts_characters dump distance =
     (\<forall>m b cps. load_bytes m b (length (utf8_bytes dump cps)) = utf8_bytes dump cps \<longrightarrow>
        distance m b (b + length (utf8_bytes dump cps)) = int (length cps))"

definition counts_columns :: "dump_fn \<Rightarrow> (codepoint \<Rightarrow> int) \<Rightarrow> distance_fn \<Rightarrow> bool" where
  "counts_columns dump codepoint_width column_distance =
     (\<forall>m b cps. load_bytes m b (length (utf8_bytes dump cps)) = utf8_bytes dump cps \<longrightarrow>
        column_distance m b (b + length (utf8_bytes dump cps)) =
          sum_list (map codepoint_width cps))"

text \<open>
  Modelled from the spec: \<^verbatim>\<open>utf8::codepoint_size\<close>, \<^verbatim>\<open>utf8::dump\<close> and
  \<^verbatim>\<open>utf8::distance\<close> of \<^verbatim>\<open>utf8.hh\<close>, as the UTF-8 encoding has them: one to four
  bytes for a codepoint, a lead byte followed by continuation bytes \<open>10xxxxxx\<close>, and one
  character for each byte that is not a continuation byte. Every codepoint is one column
  wide here. They instantiate the parameters on concrete inputs.
\<close>

definition utf8_codepoint_size :: "codepoint \<Rightarrow> int" where
  "utf8_codepoint_size cp =
     (if cp < 128 then 1 else if cp < 2048 then 2 else if cp < 65536 then 3 else 4)"

definition utf8_dump :: dump_fn where
  "utf8_dump cp =
     (if cp < 128 then [of_nat cp]
      else if cp < 2048 then [of_nat (192 + cp div 64), of_nat (128 + cp mod 64)]
      else if cp < 65536
        then [of_nat (224 + cp div 4096), of_nat (128 + cp div 64 mod 64), of_nat (128 + cp mod 64)]
      else [of_nat (240 + cp div 262144 mod 8), of_nat (128 + cp div 4096 mod 64),
            of_nat (128 + cp div 64 mod 64), of_nat (128 + cp mod 64)])"

definition is_continuation :: "byte \<Rightarrow> bool" where
  "is_continuation c = (128 \<le> unat c \<and> unat c < 192)"

definition utf8_distance :: distance_fn where
  "utf8_distance m begin end =
     int (length (filter (\<lambda>c. \<not> is_continuation c) (load_bytes m begin (end - begin))))"

definition one_column :: "codepoint \<Rightarrow> int" where
  "one_column cp = 1"

subsection \<open>Concrete machines\<close>

text \<open>
  A memory holding the C string \<^verbatim>\<open>"hi"\<close> at address 200, and three machines over it
  with the free store at 1000: one with no string yet, one with the inline string
  \<^verbatim>\<open>"hi"\<close> in the cell at 100, and one whose cell at 100 is in heap mode, with pointer
  200, size 2 and capacity 30.
\<close>

definition mem_hi :: memory where
  "mem_hi = (\<lambda>x. if x = 200 then 104 else if x = 201 then 105 else 0)"

definition st_hi :: machine where
  "st_hi = \<lparr>mem = mem_hi, brk = 1000, released = []\<rparr>"

definition st_inline :: machine where
  "st_inline = \<lparr>mem = mem_hi(100 := 104, 101 := 105, 123 := 5), brk = 1000, released = []\<rparr>"

definition st_heap :: machine where
  "st_heap = \<lparr>mem = mem_hi(100 := 200, 108 := 2, 116 := 30), brk = 1000, released = []\<rparr>"

section \<open>Properties\<close>

subsection \<open>Helper facts about counts and views\<close>

lemma is_int_bounds: "is_int x \<longleftrightarrow> - 2147483648 \<le> x \<and> x \<le> 2147483647"
  by (auto simp: is_int_def INT_MIN_def INT_MAX_def)

lemma int_cast_id: "is_int x \<Longrightarrow> int_cast x = x"
  by (simp add: int_cast_def is_int_bounds sint_sbintrunc' signed_take_bit_int_eq_self)

lemma strlen_scan:
  "(\<forall>i<n. m (s + i) \<noteq> 0) \<Longrightarrow> m (s + n) = 0 \<Longrightarrow>
   strlen m s = Some (if int n \<le> INT_MAX then Inr (int n) else Inl SignedOverflow)"
proof (induction n arbitrary: s)
  case 0
  then show ?case by (subst strlen.simps) (simp add: INT_MAX_def)
next
  case (Suc n)
  from Suc.prems(1) have head: "m s \<noteq> 0" by (metis add.right_neutral zero_less_Suc)
  have "\<forall>i<n. m (Suc s + i) \<noteq> 0"
  proof (intro allI impI)
    fix i assume "i < n"
    then have "m (s + Suc i) \<noteq> 0" using Suc.prems(1) by (meson Suc_less_eq)
    then show "m (Suc s + i) \<noteq> 0" by simp
  qed
  moreover have "m (Suc s + n) = 0" using Suc.prems(2) by simp
  ultimately have rest:
    "strlen m (Suc s) = Some (if int n \<le> INT_MAX then Inr (int n) else Inl SignedOverflow)"
    by (rule Suc.IH)
  show ?case
    by (subst strlen.simps)
       (use head rest in \<open>auto simp: count_succ_def int_add_def is_int_bounds INT_MAX_def\<close>)
qed








subsection \<open>Substrings\<close>

text \<open>
  C3. For a string or view with data \<open>d\<close> and length \<open>str_len\<close> (a \<^verbatim>\<open>ByteCount\<close>, so at
  most \<open>INT_MAX\<close>) and a start \<open>from\<close> within \<open>[0, str_len]\<close>: when the requested length
  is larger than the \<open>str_len - from\<close> bytes that remain, or negative, the byte-count
  \<^verbatim>\<open>substr\<close> returns the suffix: the view that starts at \<open>d + from\<close>, in the same
  storage, and spans \<open>str_len - from\<close> bytes. At \<open>from = str_len\<close> the view is empty.
\<close>

theorem substr_suffix:
  assumes "0 \<le> from" and "from \<le> str_len" and "str_len \<le> INT_MAX"
    and "str_len - from < len \<or> len < 0"
  shows "substr_byte d str_len from len =
           Inr \<lparr>m_data = ptr_add d from, m_length = str_len - from\<rparr> \<and>
         substr_byte d str_len str_len len =
           Inr \<lparr>m_data = ptr_add d str_len, m_length = 0\<rparr>"
  using assms by (auto simp: substr_byte_def Let_def min_def INT_MAX_def)

theorem substr_suffix_witness:
  "substr_byte 100 5 2 10 = Inr \<lparr>m_data = 102, m_length = 3\<rparr> \<and>
   substr_byte 100 5 5 10 = Inr \<lparr>m_data = 105, m_length = 0\<rparr>"
  using substr_suffix [of 2 5 10 100] by (simp add: INT_MAX_def ptr_add_def)




subsection \<open>Comparison\<close>



subsection \<open>C strings\<close>

text \<open>
  C9, as the code has it. For a non-null pointer \<open>s\<close> whose first null byte is \<open>n\<close> bytes
  away, with \<open>n\<close> at most \<open>INT_MAX\<close>: the recursion of \<^verbatim>\<open>strlen\<close> ends and returns
  \<open>n\<close>, and the view built from \<open>s\<close> has length \<open>n\<close>.
\<close>

theorem strlen_counts:
  assumes "\<forall>i<n. m (s + i) \<noteq> 0" and "m (s + n) = 0" and "int n \<le> INT_MAX" and "s \<noteq> 0"
  shows "strlen m s = Some (Inr (int n)) \<and>
         StringView_cstr m s = Some (Inr \<lparr>m_data = s, m_length = int n\<rparr>)"
  using strlen_scan [OF assms(1,2)] assms(3,4) by (simp add: StringView_cstr_def)

theorem strlen_counts_witness:
  "strlen (\<lambda>a. if a = 7 \<or> a = 8 then 65 else 0) 7 = Some (Inr 2) \<and>
   StringView_cstr (\<lambda>a. if a = 7 \<or> a = 8 then 65 else 0) 7 = Some (Inr \<lparr>m_data = 7, m_length = 2\<rparr>)"
proof -
  have "\<forall>i<2::nat. (\<lambda>a. if a = 7 \<or> a = 8 then 65 else (0 :: byte)) (7 + i) \<noteq> 0"
  proof (intro allI impI)
    fix i :: nat
    assume "i < 2"
    then have "i = 0 \<or> i = 1" by arith
    then show "(\<lambda>a. if a = 7 \<or> a = 8 then 65 else (0 :: byte)) (7 + i) \<noteq> 0" by auto
  qed
  then show ?thesis
    using strlen_counts [of 2 "\<lambda>a. if a = 7 \<or> a = 8 then 65 else 0" 7]
    by (simp add: INT_MAX_def)
qed

text \<open>
  The claim as written, for every null-terminated sequence, fails beyond the range of
  \<^verbatim>\<open>ByteCount\<close>: with \<open>2^31\<close> non-null bytes before the terminator, the last
  \<^verbatim>\<open>+ 1\<close> of the recursion leaves the range of \<^verbatim>\<open>int\<close>.
\<close>

theorem strlen_counterexample:
  "strlen (\<lambda>a. if a \<le> 2147483648 then 1 else 0) 1 = Some (Inl SignedOverflow)"
  using strlen_scan [of 2147483648 "\<lambda>a. if a \<le> 2147483648 then 1 else 0" 1]
  by (simp add: INT_MAX_def)

text \<open>
  C10. A view built from a null \<^verbatim>\<open>char\<close> pointer has length 0: the constructor tests
  the pointer and never starts the scan, whatever the memory holds.
\<close>

theorem StringView_of_nullptr:
  "StringView_cstr m 0 = Some (Inr \<lparr>m_data = 0, m_length = 0\<rparr>)"
  by (simp add: StringView_cstr_def)
subsection \<open>Helper facts about memory and cells\<close>

lemmas layout = l_ptr_at_def l_size_at_def l_capacity_at_def s_string_at_def s_size_at_def
  Short_capacity_def sizeof_Long_def sizeof_size_t_def

lemma length_load_bytes [simp]: "length (load_bytes m a n) = n"
  by (simp add: load_bytes_def)

lemma nth_load_bytes [simp]: "i < n \<Longrightarrow> load_bytes m a n ! i = m (a + i)"
  by (simp add: load_bytes_def)

lemma load_bytes_eqI:
  "(\<And>i. i < n \<Longrightarrow> m (a + i) = m' (b + i)) \<Longrightarrow> load_bytes m a n = load_bytes m' b n"
  by (rule nth_equalityI) simp_all

lemma store_bytes_in: "a \<le> x \<Longrightarrow> x < a + length bs \<Longrightarrow> store_bytes m a bs x = bs ! (x - a)"
  by (simp add: store_bytes_def)

lemma store_bytes_out: "x < a \<or> a + length bs \<le> x \<Longrightarrow> store_bytes m a bs x = m x"
  by (auto simp: store_bytes_def)

lemma load_store_same: "load_bytes (store_bytes m a bs) a (length bs) = bs"
  by (rule nth_equalityI) (simp_all add: store_bytes_def)

lemma load_store_apart:
  "apart a' n a (length bs) \<Longrightarrow> load_bytes (store_bytes m a bs) a' n = load_bytes m a' n"
  by (rule load_bytes_eqI) (auto simp: apart_def store_bytes_def)

lemma load_upd_apart: "x < a \<or> a + n \<le> x \<Longrightarrow> load_bytes (m(x := v)) a n = load_bytes m a n"
  by (rule load_bytes_eqI) auto

lemma length_le_encode [simp]: "length (le_encode n v) = n"
  by (induction n arbitrary: v) simp_all

lemma nth_le_encode: "i < n \<Longrightarrow> le_encode n v ! i = of_nat (v div 256 ^ i)"
proof (induction n arbitrary: v i)
  case 0
  then show ?case by simp
next
  case (Suc n)
  show ?case
  proof (cases i)
    case 0
    then show ?thesis by simp
  next
    case (Suc j)
    with Suc.prems have "j < n" by simp
    then have "le_encode n (v div 256) ! j = of_nat (v div 256 div 256 ^ j)" by (rule Suc.IH)
    then show ?thesis using Suc by (simp add: div_mult2_eq)
  qed
qed

lemma le_decode_encode: "le_decode (le_encode n v) = v mod 256 ^ n"
proof (induction n arbitrary: v)
  case 0
  then show ?case by simp
next
  case (Suc n)
  have "unat (of_nat v :: byte) = v mod 256" by (simp add: unat_of_nat)
  then show ?case using Suc [of "v div 256"] by (simp add: mod_mult2_eq)
qed

lemma load_store_word_same: "v < size_t_range \<Longrightarrow> load_word (store_word m a v) a = v"
  using load_store_same [of m a "le_encode sizeof_size_t v"]
  by (simp add: load_word_def store_word_def le_decode_encode size_t_range_def power_mult)

lemma load_store_word_apart:
  "apart a' sizeof_size_t a sizeof_size_t \<Longrightarrow> load_word (store_word m a v) a' = load_word m a'"
  by (simp add: load_word_def store_word_def load_store_apart)

lemma load_bytes_store_word_apart:
  "apart a' n a sizeof_size_t \<Longrightarrow> load_bytes (store_word m a v) a' n = load_bytes m a' n"
  by (simp add: store_word_def load_store_apart)

lemma store_word_out: "x < a \<or> a + sizeof_size_t \<le> x \<Longrightarrow> store_word m a v x = m x"
  by (simp add: store_word_def store_bytes_out)

lemma store_word_in:
  "a \<le> x \<Longrightarrow> x < a + sizeof_size_t \<Longrightarrow> store_word m a v x = of_nat (v div 256 ^ (x - a))"
  by (simp add: store_word_def store_bytes_in nth_le_encode)

lemma s_size_set_l_capacity:
  "s_size (set_l_capacity m this c) this = of_nat (c div 256 ^ (sizeof_size_t - 1))"
  by (simp add: s_size_def set_l_capacity_def store_word_in layout)

lemma max_capacity_eq: "max_capacity = 256 ^ (sizeof_size_t - 1)"
  by (simp add: max_capacity_def push_bit_eq_mult power_mult)

lemma is_long_set_l_capacity: "c < max_capacity \<Longrightarrow> is_long (set_l_capacity m this c) this"
  by (simp add: is_long_def s_size_set_l_capacity max_capacity_eq)

lemma odd_byte: "(of_nat (2 * n + 1) :: byte) AND 1 = 1"
  by (simp add: and_one_eq mod_2_eq_odd)

lemma half_byte:
  assumes "n < 128"
  shows "unat (drop_bit 1 (of_nat (2 * n + 1) :: byte)) = n"
proof -
  have "unat (of_nat (2 * n + 1) :: byte) = (2 * n + 1) mod 2 ^ LENGTH(8)"
    by (rule unat_of_nat)
  also have "\<dots> = 2 * n + 1" using assms by simp
  finally have "unat (of_nat (2 * n + 1) :: byte) = 2 * n + 1" .
  moreover have "unat (drop_bit 1 (of_nat (2 * n + 1) :: byte))
      = drop_bit 1 (unat (of_nat (2 * n + 1) :: byte))"
    by (rule unat_drop_bit_eq)
  ultimately show ?thesis by (simp only: drop_bit_eq_div) simp
qed

lemma load_store_prefix:
  "n \<le> length bs \<Longrightarrow> load_bytes (store_bytes m a bs) a n = take n bs"
  by (rule nth_equalityI) (simp_all add: store_bytes_def)

lemma max_capacity_less_range: "max_capacity < size_t_range"
  by (simp add: max_capacity_eq size_t_range_def sizeof_size_t_def)

lemma int_max_less_capacity: "nat INT_MAX < max_capacity"
  by (simp add: max_capacity_eq INT_MAX_def sizeof_size_t_def)

lemma Data_ctor_short:
  assumes fit: "capacity \<le> Short_capacity" and len: "length bs \<le> capacity"
  shows "Data_ctor st this bs capacity = Inr (st\<lparr>mem := set_short (mem st) this bs\<rparr>)"
    and "\<not> is_long (set_short m this bs) this"
    and "Data_size (set_short m this bs) this = length bs"
    and "Data_data (set_short m this bs) this = this"
    and "load_bytes (set_short m this bs) this (length bs) = bs"
    and "set_short m this bs (this + length bs) = 0"
    and "\<not> (this \<le> x \<and> x < this + sizeof_Long) \<Longrightarrow> set_short m this bs x = m x"
proof -
  from fit len have n: "length bs \<le> 22" by (simp add: layout)
  show "Data_ctor st this bs capacity = Inr (st\<lparr>mem := set_short (mem st) this bs\<rparr>)"
    using fit by (simp add: Data_ctor_def)
  have s: "s_size (set_short m this bs) this = of_nat (2 * length bs + 1)"
    using n by (simp add: s_size_def set_short_def Let_def store_bytes_def layout)
  show short: "\<not> is_long (set_short m this bs) this"
    unfolding is_long_def s using odd_byte [of "length bs"] by simp
  show "Data_size (set_short m this bs) this = length bs"
    unfolding Data_size_def s using short half_byte [of "length bs"] n by simp
  show "Data_data (set_short m this bs) this = this"
    using short by (simp add: Data_data_def s_string_at_def)
  show "load_bytes (set_short m this bs) this (length bs) = bs"
    using n by (intro nth_equalityI) (simp_all add: set_short_def Let_def store_bytes_def layout)
  show "set_short m this bs (this + length bs) = 0"
    by (simp add: set_short_def Let_def layout)
  show "set_short m this bs x = m x" if "\<not> (this \<le> x \<and> x < this + sizeof_Long)"
    using that n by (auto simp: set_short_def Let_def store_bytes_def layout)
qed

lemma Data_ctor_long:
  assumes big: "Short_capacity < capacity" and cap: "capacity < max_capacity"
    and len: "length bs \<le> capacity"
    and cell: "this + sizeof_Long \<le> brk st"
    and room: "brk st + capacity + 1 < size_t_range"
  shows "\<exists>st'. Data_ctor st this bs capacity = Inr st' \<and>
           is_long (mem st') this \<and> l_ptr (mem st') this = brk st \<and>
           l_size (mem st') this = length bs \<and> l_capacity (mem st') this = capacity \<and>
           brk st' = brk st + capacity + 1 \<and> released st' = released st \<and>
           load_bytes (mem st') (brk st) (length bs) = bs \<and>
           mem st' (brk st + length bs) = 0 \<and>
           (\<forall>x. x < brk st \<and> \<not> (this \<le> x \<and> x < this + sizeof_Long) \<longrightarrow> mem st' x = mem st x)"
proof -
  define p where "p = brk st"
  define m1 where "m1 = store_bytes (mem st) p (bs @ [0])"
  define m2 where "m2 = store_word m1 (l_ptr_at this) p"
  define m3 where "m3 = store_word m2 (l_size_at this) (length bs)"
  define m4 where "m4 = set_l_capacity m3 this capacity"
  define st' where "st' = st\<lparr>brk := p + (capacity + 1), mem := m4\<rparr>"
  have run: "Data_ctor st this bs capacity = Inr st'"
    using big cap room
    by (simp add: Data_ctor_def allocate_def st'_def m4_def m3_def m2_def m1_def p_def Let_def)
  have ranges: "capacity < size_t_range" "length bs < size_t_range" "p < size_t_range"
    using cap len room max_capacity_less_range by (simp_all add: p_def)
  have below: "this + 24 \<le> p" using cell by (simp add: p_def layout)
  have long: "is_long m4 this" unfolding m4_def using cap by (rule is_long_set_l_capacity)
  have c: "l_capacity m4 this = capacity"
    unfolding l_capacity_def m4_def set_l_capacity_def using ranges(1) by (rule load_store_word_same)
  have "l_size m4 this = load_word m3 (l_size_at this)"
    unfolding l_size_def m4_def set_l_capacity_def
    by (rule load_store_word_apart) (simp add: apart_def layout)
  then have s: "l_size m4 this = length bs"
    unfolding m3_def using ranges(2) by (simp add: load_store_word_same)
  have "l_ptr m4 this = load_word m3 (l_ptr_at this)"
    unfolding l_ptr_def m4_def set_l_capacity_def
    by (rule load_store_word_apart) (simp add: apart_def layout)
  also have "\<dots> = load_word m2 (l_ptr_at this)"
    unfolding m3_def by (rule load_store_word_apart) (simp add: apart_def layout)
  also have "\<dots> = p" unfolding m2_def using ranges(3) by (rule load_store_word_same)
  finally have q: "l_ptr m4 this = p" .
  have frame: "m4 x = m1 x" if "\<not> (this \<le> x \<and> x < this + 24)" for x
  proof -
    from that have "x < this \<or> this + 24 \<le> x" by arith
    then show ?thesis
      by (auto simp: m4_def m3_def m2_def set_l_capacity_def store_word_out layout)
  qed
  have "load_bytes m4 p (length bs) = load_bytes m1 p (length bs)"
    using below by (intro load_bytes_eqI frame) simp
  also have "\<dots> = take (length bs) (bs @ [0])"
    unfolding m1_def by (rule load_store_prefix) simp
  finally have content: "load_bytes m4 p (length bs) = bs" by simp
  have "m4 (p + length bs) = m1 (p + length bs)" using below by (intro frame) simp
  then have zero: "m4 (p + length bs) = 0" by (simp add: m1_def store_bytes_def)
  have rest: "m4 x = mem st x" if "x < p" "\<not> (this \<le> x \<and> x < this + sizeof_Long)" for x
    using that frame [of x] by (simp add: m1_def store_bytes_def layout)
  show ?thesis
    using run long c s q content zero rest
    by (intro exI [of _ st']) (simp add: st'_def p_def)
qed

lemma Data_ctor_holds:
  assumes len: "length bs \<le> capacity" and cap: "capacity < max_capacity"
    and cell: "this + sizeof_Long \<le> brk st"
    and room: "brk st + capacity + 1 < size_t_range"
  shows "\<exists>st'. Data_ctor st this bs capacity = Inr st' \<and>
           Data_size (mem st') this = length bs \<and>
           load_bytes (mem st') (Data_data (mem st') this) (length bs) = bs \<and>
           mem st' (Data_data (mem st') this + length bs) = 0 \<and>
           cell_ok st' this \<and> brk st \<le> brk st' \<and>
           (is_long (mem st') this \<longleftrightarrow> Short_capacity < capacity) \<and>
           (is_long (mem st') this \<longrightarrow> Data_data (mem st') this = brk st) \<and>
           (\<forall>x. x < brk st \<and> \<not> (this \<le> x \<and> x < this + sizeof_Long) \<longrightarrow> mem st' x = mem st x)"
proof (cases "Short_capacity < capacity")
  case True
  from Data_ctor_long [OF True cap len cell room] obtain st' where
    st': "Data_ctor st this bs capacity = Inr st'" "is_long (mem st') this"
      "l_ptr (mem st') this = brk st" "l_size (mem st') this = length bs"
      "l_capacity (mem st') this = capacity" "brk st' = brk st + capacity + 1"
      "load_bytes (mem st') (brk st) (length bs) = bs" "mem st' (brk st + length bs) = 0"
      "\<forall>x. x < brk st \<and> \<not> (this \<le> x \<and> x < this + sizeof_Long) \<longrightarrow> mem st' x = mem st x"
    by blast
  have "cell_ok st' this"
    using st' len cap cell by (simp add: cell_ok_def apart_def)
  then show ?thesis
    using st' True by (intro exI [of _ st']) (simp add: Data_size_def Data_data_def)
next
  case False
  then have fit: "capacity \<le> Short_capacity" by simp
  note short = Data_ctor_short [OF fit len]
  have "cell_ok (st\<lparr>mem := set_short (mem st) this bs\<rparr>) this"
    using short(2,3) [of "mem st" this] cell fit len by (simp add: cell_ok_def)
  then show ?thesis
    using short(1) [of st this] short(2-6) [of "mem st" this] short(7) [of this _ "mem st"] False
    by (intro exI [of _ "st\<lparr>mem := set_short (mem st) this bs\<rparr>"]) simp
qed

lemma to_size_t_nat: "0 \<le> n \<Longrightarrow> n \<le> INT_MAX \<Longrightarrow> to_size_t n = nat n"
  by (simp add: to_size_t_def size_t_range_def sizeof_size_t_def INT_MAX_def)

lemma String_ctor_holds:
  assumes len: "0 \<le> len" "len \<le> INT_MAX"
    and cell: "this + sizeof_Long \<le> brk st"
    and room: "brk st + nat len + 1 < size_t_range"
  shows "\<exists>st'. String_ctor st this content len = Inr st' \<and>
           String_length (mem st') this = len \<and>
           (\<forall>i<nat len. mem st' (String_data (mem st') this + i) = mem st (content + i)) \<and>
           String_bytes (mem st') this = load_bytes (mem st) content (nat len) \<and>
           cell_ok st' this \<and> (is_long (mem st') this \<longleftrightarrow> Short_capacity < nat len)"
proof -
  define bs where "bs = load_bytes (mem st) content (nat len)"
  have n: "length bs = nat len" by (simp add: bs_def)
  have cap: "nat len < max_capacity"
    using len int_max_less_capacity by (simp add: INT_MAX_def)
  from Data_ctor_holds [of bs "nat len" this st] n cap cell room obtain st' where
    st': "Data_ctor st this bs (nat len) = Inr st'" "Data_size (mem st') this = length bs"
      "load_bytes (mem st') (Data_data (mem st') this) (length bs) = bs"
      "cell_ok st' this" "is_long (mem st') this \<longleftrightarrow> Short_capacity < nat len"
    by auto
  have run: "String_ctor st this content len = Inr st'"
    using st'(1) len by (simp add: String_ctor_def to_size_t_nat bs_def)
  have "is_int (int (nat len))" using len by (simp add: is_int_bounds INT_MAX_def)
  then have l: "String_length (mem st') this = len"
    using st'(2) n len by (simp add: String_length_def int_cast_id)
  have "mem st' (String_data (mem st') this + i) = mem st (content + i)" if "i < nat len" for i
  proof -
    have "load_bytes (mem st') (Data_data (mem st') this) (length bs) ! i = bs ! i"
      by (simp only: st'(3))
    then show ?thesis using that n by (simp add: String_data_def bs_def)
  qed
  then show ?thesis
    using run l st'(2-5) n by (intro exI [of _ st']) (simp add: String_bytes_def bs_def)
qed

lemma transfer_cell:
  assumes "apart b sizeof_Long a sizeof_Long" and "i < sizeof_Long"
  shows "transfer m b a (b + i) = m (a + i)"
  using assms by (auto simp: transfer_def set_empty_def store_bytes_def apart_def layout)

lemma transfer_source: "transfer m b a (s_size_at a) = 1"
  by (simp add: transfer_def set_empty_def)

lemma transfer_frame:
  assumes "\<not> (b \<le> x \<and> x < b + sizeof_Long)" and "x \<noteq> s_size_at a"
  shows "transfer m b a x = m x"
  using assms by (auto simp: transfer_def set_empty_def store_bytes_def)

lemma transfer_word:
  assumes "apart b sizeof_Long a sizeof_Long" and "k + sizeof_size_t \<le> sizeof_Long"
  shows "load_word (transfer m b a) (b + k) = load_word m (a + k)"
proof -
  have "load_bytes (transfer m b a) (b + k) sizeof_size_t = load_bytes m (a + k) sizeof_size_t"
  proof (rule load_bytes_eqI)
    fix i assume "i < sizeof_size_t"
    then have "k + i < sizeof_Long" using assms(2) by simp
    then show "transfer m b a (b + k + i) = m (a + k + i)"
      using transfer_cell [OF assms(1), of "k + i" m] by (simp add: add.assoc)
  qed
  then show ?thesis by (simp add: load_word_def)
qed

lemma transfer_emptied:
  shows "\<not> is_long (transfer m b a) a" and "Data_size (transfer m b a) a = 0"
    and "Data_data (transfer m b a) a = s_string_at a"
proof -
  have s: "s_size (transfer m b a) a = 1" by (simp add: s_size_def transfer_source)
  show short: "\<not> is_long (transfer m b a) a" by (simp add: is_long_def s)
  show "Data_size (transfer m b a) a = 0" using short by (simp add: Data_size_def s)
  show "Data_data (transfer m b a) a = s_string_at a" using short by (simp add: Data_data_def)
qed

lemma transfer_target:
  assumes ok: "cell_ok st a" and ab: "apart b sizeof_Long a sizeof_Long"
    and blk: "is_long (mem st) a \<longrightarrow>
                apart b sizeof_Long (l_ptr (mem st) a) (l_capacity (mem st) a + 1)"
  shows "is_long (transfer (mem st) b a) b = is_long (mem st) a"
    and "Data_size (transfer (mem st) b a) b = Data_size (mem st) a"
    and "Data_capacity (transfer (mem st) b a) b = Data_capacity (mem st) a"
    and "is_long (mem st) a \<Longrightarrow> Data_data (transfer (mem st) b a) b = Data_data (mem st) a"
    and "\<not> is_long (mem st) a \<Longrightarrow> Data_data (transfer (mem st) b a) b = s_string_at b"
    and "k \<le> Data_capacity (mem st) a + 1 \<Longrightarrow>
           load_bytes (transfer (mem st) b a) (Data_data (transfer (mem st) b a) b) k =
           load_bytes (mem st) (Data_data (mem st) a) k"
proof -
  define m where "m = mem st"
  define m' where "m' = transfer m b a"
  have s: "s_size m' b = s_size m a"
    using transfer_cell [OF ab, of "Short_capacity + 1" m]
    by (simp add: s_size_def m'_def s_size_at_def) (simp add: layout)
  have p: "l_ptr m' b = l_ptr m a"
    using transfer_word [OF ab, of 0 m] by (simp add: l_ptr_def m'_def layout)
  have sz: "l_size m' b = l_size m a"
    using transfer_word [OF ab, of sizeof_size_t m] by (simp add: l_size_def m'_def layout)
  have c: "l_capacity m' b = l_capacity m a"
    using transfer_word [OF ab, of "2 * sizeof_size_t" m]
    by (simp add: l_capacity_def m'_def layout)
  show long: "is_long (transfer (mem st) b a) b = is_long (mem st) a"
    by (simp add: is_long_def s [unfolded m'_def m_def])
  show "Data_size (transfer (mem st) b a) b = Data_size (mem st) a"
    using long s sz by (simp add: Data_size_def m'_def m_def)
  show "Data_capacity (transfer (mem st) b a) b = Data_capacity (mem st) a"
    using long c by (simp add: Data_capacity_def m'_def m_def)
  show d: "Data_data (transfer (mem st) b a) b = Data_data (mem st) a" if "is_long (mem st) a"
    using that long p by (simp add: Data_data_def m'_def m_def)
  show e: "Data_data (transfer (mem st) b a) b = s_string_at b" if "\<not> is_long (mem st) a"
    using that long by (simp add: Data_data_def)
  show "load_bytes (transfer (mem st) b a) (Data_data (transfer (mem st) b a) b) k =
        load_bytes (mem st) (Data_data (mem st) a) k" if k: "k \<le> Data_capacity (mem st) a + 1"
  proof (cases "is_long (mem st) a")
    case True
    define q where "q = l_ptr (mem st) a"
    have away: "apart b sizeof_Long q (l_capacity (mem st) a + 1)"
      "apart a sizeof_Long q (l_capacity (mem st) a + 1)"
      using True blk ok by (simp_all add: cell_ok_def q_def)
    have "transfer (mem st) b a (q + i) = mem st (q + i)" if "i < k" for i
    proof (rule transfer_frame)
      from that k True have i: "i < l_capacity (mem st) a + 1" by (simp add: Data_capacity_def)
      show "\<not> (b \<le> q + i \<and> q + i < b + sizeof_Long)"
        using away(1) i by (auto simp: apart_def)
      show "q + i \<noteq> s_size_at a"
        using away(2) i by (auto simp: apart_def layout)
    qed
    then have "load_bytes (transfer (mem st) b a) q k = load_bytes (mem st) q k"
      by (intro load_bytes_eqI)
    then show ?thesis using True d by (simp add: Data_data_def q_def)
  next
    case False
    with k have "k \<le> Short_capacity + 1" by (simp add: Data_capacity_def)
    then have "load_bytes (transfer (mem st) b a) b k = load_bytes (mem st) a k"
      by (intro load_bytes_eqI transfer_cell [OF ab]) (simp add: layout)
    then show ?thesis using False e by (simp add: Data_data_def s_string_at_def)
  qed
qed

lemma transfer_cell_ok:
  assumes ok: "cell_ok st a" and ab: "apart b sizeof_Long a sizeof_Long"
    and blk: "is_long (mem st) a \<longrightarrow>
                apart b sizeof_Long (l_ptr (mem st) a) (l_capacity (mem st) a + 1)"
    and cell: "b + sizeof_Long \<le> brk st"
    and st': "mem st' = transfer (mem st) b a" "brk st' = brk st"
  shows "cell_ok st' a" and "cell_ok st' b"
proof -
  note t = transfer_target [OF ok ab blk]
  show "cell_ok st' a"
    using ok transfer_emptied [of "mem st" b a] by (simp add: cell_ok_def st')
  show "cell_ok st' b"
  proof (cases "is_long (mem st) a")
    case True
    then have "l_size (mem st') b = l_size (mem st) a" "l_capacity (mem st') b = l_capacity (mem st) a"
      "l_ptr (mem st') b = l_ptr (mem st) a" "is_long (mem st') b"
      using t(1-4) by (simp_all add: Data_size_def Data_capacity_def Data_data_def st')
    then show ?thesis using ok blk cell True by (simp add: cell_ok_def st')
  next
    case False
    then show ?thesis using ok cell t(1,2) by (simp add: cell_ok_def st')
  qed
qed

lemma moved:
  assumes ok: "cell_ok st a" and ab: "apart b sizeof_Long a sizeof_Long"
    and blk: "is_long (mem st) a \<longrightarrow>
                apart b sizeof_Long (l_ptr (mem st) a) (l_capacity (mem st) a + 1)"
    and cell: "b + sizeof_Long \<le> brk st"
    and st': "mem st' = transfer (mem st) b a" "brk st' = brk st"
  shows "String_bytes (mem st') b = String_bytes (mem st) a \<and>
         String_length (mem st') b = String_length (mem st) a \<and>
         String_length (mem st') a = 0 \<and> \<not> is_long (mem st') a \<and>
         String_data (mem st') a = s_string_at a \<and>
         cell_ok st' a \<and> cell_ok st' b \<and> brk st' = brk st"
proof -
  note t = transfer_target [OF ok ab blk]
  have "Data_size (mem st) a \<le> Data_capacity (mem st) a + 1"
    using ok by (auto simp: cell_ok_def Data_size_def Data_capacity_def split: if_splits)
  then have "String_bytes (mem st') b = String_bytes (mem st) a"
    using t(6) [of "Data_size (mem st) a"] t(2) by (simp add: String_bytes_def st')
  moreover have "String_length (mem st') b = String_length (mem st) a"
    using t(2) by (simp add: String_length_def st')
  moreover have "String_length (mem st') a = 0"
    using transfer_emptied(2) [of "mem st" b a] by (simp add: String_length_def st' int_cast_def)
  ultimately show ?thesis
    using transfer_emptied(1,3) [of "mem st" b a] transfer_cell_ok [OF assms]
    by (simp add: st' String_data_def)
qed




lemma st_inline_ok: "cell_ok st_inline 100" "\<not> is_long (mem st_inline) 100"
  by (simp_all add: cell_ok_def is_long_def Data_size_def s_size_def st_inline_def mem_hi_def
      layout drop_bit_eq_div)

lemma st_heap_ok: "cell_ok st_heap 100" "is_long (mem st_heap) 100"
  "l_ptr (mem st_heap) 100 = 200" "l_capacity (mem st_heap) 100 = 30"
  by (simp_all add: cell_ok_def is_long_def s_size_def l_size_def l_capacity_def l_ptr_def
      load_word_def load_bytes_def st_heap_def mem_hi_def layout apart_def max_capacity_eq)

subsection \<open>The representation\<close>




subsection \<open>Construction\<close>

text \<open>
  C2. Let \<open>len\<close> be a \<^verbatim>\<open>ByteCount\<close> from 0 to \<open>INT_MAX\<close>, the cell of the new
  string lie below the free store, and the allocator have room for \<open>len + 1\<close> bytes.
  Then \<^verbatim>\<open>String(content, len)\<close> returns a string whose \<^verbatim>\<open>length()\<close> is \<open>len\<close>
  and whose \<^verbatim>\<open>data()[i]\<close> is the byte \<open>content[i]\<close> for every \<open>i < len\<close>; the string
  is in heap mode exactly when \<open>len\<close> exceeds the inline capacity. When \<open>content\<close> is
  null-terminated after \<open>len\<close> bytes, \<^verbatim>\<open>String(content)\<close> returns the same.
\<close>

theorem String_roundtrip:
  assumes "0 \<le> len" and "len \<le> INT_MAX"
    and "this + sizeof_Long \<le> brk st"
    and "brk st + nat len + 1 < size_t_range"
  shows "(\<exists>st'. String_ctor st this content len = Inr st' \<and>
            String_length (mem st') this = len \<and>
            (\<forall>i<nat len. mem st' (String_data (mem st') this + i) = mem st (content + i)) \<and>
            cell_ok st' this \<and> (is_long (mem st') this \<longleftrightarrow> Short_capacity < nat len)) \<and>
         ((\<forall>i<nat len. mem st (content + i) \<noteq> 0) \<and> mem st (content + nat len) = 0 \<longrightarrow>
          (\<exists>st'. String_cstr st this content = Some (Inr st') \<and>
            String_length (mem st') this = len \<and>
            (\<forall>i<nat len. mem st' (String_data (mem st') this + i) = mem st (content + i))))"
proof -
  from String_ctor_holds [OF assms] obtain st' where
    st': "String_ctor st this content len = Inr st'" "String_length (mem st') this = len"
      "\<forall>i<nat len. mem st' (String_data (mem st') this + i) = mem st (content + i)"
      "cell_ok st' this" "is_long (mem st') this \<longleftrightarrow> Short_capacity < nat len"
    by blast
  have "String_cstr st this content = Some (Inr st')"
    if "\<forall>i<nat len. mem st (content + i) \<noteq> 0" "mem st (content + nat len) = 0"
    using strlen_scan [OF that] assms(1,2) st'(1) by (simp add: String_cstr_def)
  with st' show ?thesis by blast
qed

theorem String_roundtrip_witness:
  "(\<exists>st'. String_ctor st_hi 100 200 2 = Inr st' \<and> String_length (mem st') 100 = 2 \<and>
       mem st' (String_data (mem st') 100) = 104 \<and> \<not> is_long (mem st') 100) \<and>
   (\<exists>st'. String_cstr st_hi 100 200 = Some (Inr st') \<and> String_length (mem st') 100 = 2) \<and>
   (\<exists>st'. String_ctor st_hi 100 200 30 = Inr st' \<and> String_length (mem st') 100 = 30 \<and>
       mem st' (String_data (mem st') 100) = 104 \<and> is_long (mem st') 100)"
proof -
  have cell: "100 + sizeof_Long \<le> brk st_hi" by (simp add: st_hi_def layout)
  have room: "brk st_hi + nat 2 + 1 < size_t_range" "brk st_hi + nat 30 + 1 < size_t_range"
    by (simp_all add: st_hi_def size_t_range_def sizeof_size_t_def)
  have "mem st_hi (200 + i) \<noteq> 0" if "i < nat 2" for i
  proof -
    from that have "i = 0 \<or> i = 1" by arith
    then show ?thesis by (auto simp: st_hi_def mem_hi_def)
  qed
  then have str: "(\<forall>i<nat 2. mem st_hi (200 + i) \<noteq> 0) \<and> mem st_hi (200 + nat 2) = 0"
    by (simp add: st_hi_def mem_hi_def)
  have m: "mem st_hi (200 + 0) = 104" by (simp add: st_hi_def mem_hi_def)
  have len: "(0::int) \<le> 2" "(2::int) \<le> INT_MAX" "(0::int) \<le> 30" "(30::int) \<le> INT_MAX"
    by (simp_all add: INT_MAX_def)
  note short = String_roundtrip [OF len(1,2) cell room(1), of 200]
  from short obtain st1 where st1: "String_ctor st_hi 100 200 2 = Inr st1"
    "String_length (mem st1) 100 = 2"
    "\<forall>i<nat 2. mem st1 (String_data (mem st1) 100 + i) = mem st_hi (200 + i)"
    "is_long (mem st1) 100 \<longleftrightarrow> Short_capacity < nat 2"
    by blast
  from st1(3) [rule_format, of 0]
  have "mem st1 (String_data (mem st1) 100 + 0) = mem st_hi (200 + 0)" by simp
  with st1 m
  have a: "(\<exists>st'. String_ctor st_hi 100 200 2 = Inr st' \<and> String_length (mem st') 100 = 2 \<and>
       mem st' (String_data (mem st') 100) = 104 \<and> \<not> is_long (mem st') 100)"
    by (intro exI [of _ st1]) (simp add: layout)
  from short str
  have b: "(\<exists>st'. String_cstr st_hi 100 200 = Some (Inr st') \<and> String_length (mem st') 100 = 2)"
    by blast
  from String_roundtrip [OF len(3,4) cell room(2), of 200]
  obtain st2 where st2: "String_ctor st_hi 100 200 30 = Inr st2"
    "String_length (mem st2) 100 = 30"
    "\<forall>i<nat 30. mem st2 (String_data (mem st2) 100 + i) = mem st_hi (200 + i)"
    "is_long (mem st2) 100 \<longleftrightarrow> Short_capacity < nat 30"
    by blast
  from st2(3) [rule_format, of 0]
  have "mem st2 (String_data (mem st2) 100 + 0) = mem st_hi (200 + 0)" by simp
  with st2 m
  have c: "(\<exists>st'. String_ctor st_hi 100 200 30 = Inr st' \<and> String_length (mem st') 100 = 30 \<and>
       mem st' (String_data (mem st') 100) = 104 \<and> is_long (mem st') 100)"
    by (intro exI [of _ st2]) (simp add: layout)
  from a b c show ?thesis by blast
qed

subsection \<open>Move\<close>

text \<open>
  C6. Let \<open>a\<close> be a well-formed string and \<open>b\<close> a cell below the free store that
  overlaps neither the cell of \<open>a\<close> nor its heap block. After the move construction of
  \<open>b\<close> from \<open>a\<close>, and after the move assignment of \<open>a\<close> to \<open>b\<close>: \<open>b\<close> holds the bytes
  and the length \<open>a\<close> had; \<open>a\<close> has length 0, is in inline mode, and its \<^verbatim>\<open>data()\<close> is
  its own inline array; both cells are well-formed. The move returns a machine and no
  error, and the free store is where it was: nothing was allocated.
\<close>

theorem move_empties_source:
  assumes "cell_ok st a" and "apart b sizeof_Long a sizeof_Long"
    and "is_long (mem st) a \<longrightarrow>
           apart b sizeof_Long (l_ptr (mem st) a) (l_capacity (mem st) a + 1)"
    and "b + sizeof_Long \<le> brk st"
  shows "(String_bytes (mem (String_move_ctor st b a)) b = String_bytes (mem st) a \<and>
          String_length (mem (String_move_ctor st b a)) b = String_length (mem st) a \<and>
          String_length (mem (String_move_ctor st b a)) a = 0 \<and>
          \<not> is_long (mem (String_move_ctor st b a)) a \<and>
          String_data (mem (String_move_ctor st b a)) a = s_string_at a \<and>
          cell_ok (String_move_ctor st b a) a \<and> cell_ok (String_move_ctor st b a) b \<and>
          brk (String_move_ctor st b a) = brk st) \<and>
         (String_bytes (mem (String_move_assign st b a)) b = String_bytes (mem st) a \<and>
          String_length (mem (String_move_assign st b a)) b = String_length (mem st) a \<and>
          String_length (mem (String_move_assign st b a)) a = 0 \<and>
          \<not> is_long (mem (String_move_assign st b a)) a \<and>
          String_data (mem (String_move_assign st b a)) a = s_string_at a \<and>
          cell_ok (String_move_assign st b a) a \<and> cell_ok (String_move_assign st b a) b \<and>
          brk (String_move_assign st b a) = brk st)"
proof -
  have c: "mem (String_move_ctor st b a) = transfer (mem st) b a"
    "brk (String_move_ctor st b a) = brk st"
    by (simp_all add: String_move_ctor_def Data_move_ctor_def)
  have r: "mem (release st b) = mem st" "brk (release st b) = brk st"
    by (simp_all add: release_def deallocate_def)
  then have a: "mem (String_move_assign st b a) = transfer (mem st) b a"
    "brk (String_move_assign st b a) = brk st"
    by (simp_all add: String_move_assign_def Data_move_assign_def Let_def)
  from moved [OF assms c] moved [OF assms a] show ?thesis by (rule conjI)
qed

theorem move_empties_source_witness:
  "String_bytes (mem (String_move_ctor st_heap 300 100)) 300 = String_bytes (mem st_heap) 100 \<and>
   String_length (mem (String_move_ctor st_heap 300 100)) 100 = 0 \<and>
   \<not> is_long (mem (String_move_ctor st_heap 300 100)) 100 \<and>
   brk (String_move_ctor st_heap 300 100) = brk st_heap \<and>
   String_bytes (mem (String_move_assign st_inline 300 100)) 300 = String_bytes (mem st_inline) 100 \<and>
   String_length (mem (String_move_assign st_inline 300 100)) 100 = 0 \<and>
   \<not> is_long (mem (String_move_assign st_inline 300 100)) 100 \<and>
   brk (String_move_assign st_inline 300 100) = brk st_inline"
proof -
  have "apart 300 sizeof_Long 100 sizeof_Long" "apart 300 sizeof_Long 200 (30 + 1)"
    by (simp_all add: apart_def layout)
  moreover have "300 + sizeof_Long \<le> brk st_heap" "300 + sizeof_Long \<le> brk st_inline"
    by (simp_all add: st_heap_def st_inline_def layout)
  ultimately show ?thesis
    using move_empties_source [of st_heap 100 300] move_empties_source [of st_inline 100 300]
      st_heap_ok st_inline_ok
    by simp
qed

subsection \<open>The zero-terminated adapter\<close>


subsection \<open>Helper facts about growth and repeated codepoints\<close>

lemma long_fields:
  fixes m :: memory and this p n c :: nat
  assumes "c < max_capacity" and "n < size_t_range" and "p < size_t_range"
  defines "m' \<equiv> set_l_capacity (store_word (store_word m (l_ptr_at this) p) (l_size_at this) n) this c"
  shows "is_long m' this" and "l_ptr m' this = p" and "l_size m' this = n"
    and "l_capacity m' this = c"
    and "\<And>x. \<not> (this \<le> x \<and> x < this + sizeof_Long) \<Longrightarrow> m' x = m x"
proof -
  define m2 where "m2 = store_word m (l_ptr_at this) p"
  define m3 where "m3 = store_word m2 (l_size_at this) n"
  have m': "m' = set_l_capacity m3 this c" by (simp add: m'_def m3_def m2_def)
  show "is_long m' this" unfolding m' using assms(1) by (rule is_long_set_l_capacity)
  have "c < size_t_range" using assms(1) max_capacity_less_range by simp
  then show "l_capacity m' this = c"
    unfolding l_capacity_def m' set_l_capacity_def by (rule load_store_word_same)
  have "l_size m' this = load_word m3 (l_size_at this)"
    unfolding l_size_def m' set_l_capacity_def
    by (rule load_store_word_apart) (simp add: apart_def layout)
  then show "l_size m' this = n"
    unfolding m3_def using assms(2) by (simp add: load_store_word_same)
  have "l_ptr m' this = load_word m3 (l_ptr_at this)"
    unfolding l_ptr_def m' set_l_capacity_def
    by (rule load_store_word_apart) (simp add: apart_def layout)
  also have "\<dots> = load_word m2 (l_ptr_at this)"
    unfolding m3_def by (rule load_store_word_apart) (simp add: apart_def layout)
  also have "\<dots> = p" unfolding m2_def using assms(3) by (rule load_store_word_same)
  finally show "l_ptr m' this = p" .
  show "m' x = m x" if "\<not> (this \<le> x \<and> x < this + sizeof_Long)" for x
  proof -
    from that have "x < this \<or> this + 24 \<le> x" by (simp add: layout) arith
    then show ?thesis
      by (auto simp: m' m3_def m2_def set_l_capacity_def store_word_out layout)
  qed
qed

lemma size_within_capacity: "cell_ok st this \<Longrightarrow> Data_size (mem st) this \<le> Data_capacity (mem st) this"
  by (auto simp: cell_ok_def Data_size_def Data_capacity_def split: if_splits)

lemma Data_reserve_holds:
  assumes ok: "cell_ok st this"
    and cap: "max (2 * Data_capacity (mem st) this) want < max_capacity"
    and room: "brk st + max (2 * Data_capacity (mem st) this) want + 1 < size_t_range"
  shows "\<exists>st'. Data_reserve st this want = Inr st' \<and> cell_ok st' this \<and>
           String_bytes (mem st') this = String_bytes (mem st) this \<and>
           Data_size (mem st') this = Data_size (mem st) this \<and>
           want \<le> Data_capacity (mem st') this \<and> brk st \<le> brk st' \<and>
           (\<forall>x. x < brk st \<and> \<not> (this \<le> x \<and> x < this + sizeof_Long) \<longrightarrow> mem st' x = mem st x)"
proof (cases "want \<le> Data_capacity (mem st) this")
  case True
  then have "Data_reserve st this want = Inr st" by (simp add: Data_reserve_def)
  then show ?thesis using ok True by (intro exI [of _ st]) simp
next
  case False
  define nc where "nc = max (2 * Data_capacity (mem st) this) want"
  define p where "p = brk st"
  define n where "n = Data_size (mem st) this"
  define old where "old = load_bytes (mem st) (Data_data (mem st) this) n"
  define m1 where "m1 = store_bytes (mem st) p old"
  define st2 where "st2 = release (st\<lparr>brk := Suc (p + nc), mem := m1\<rparr>) this"
  define m4 where
    "m4 = set_l_capacity (store_word (store_word m1 (l_ptr_at this) p) (l_size_at this) n) this nc"
  define st' where "st' = st2\<lparr>mem := m4\<rparr>"
  have st2: "mem st2 = m1" "brk st2 = Suc (p + nc)"
    by (simp_all add: st2_def release_def deallocate_def)
  have run: "Data_reserve st this want = Inr st'"
    using False cap room
    by (simp add: Data_reserve_def allocate_def Let_def nc_def [symmetric] p_def [symmetric]
        n_def [symmetric] old_def [symmetric] m1_def [symmetric] st2_def [symmetric] st2
        m4_def [symmetric] st'_def)
  have n: "n \<le> nc" using size_within_capacity [OF ok] by (simp add: n_def nc_def)
  have below: "this + sizeof_Long \<le> p" using ok by (simp add: cell_ok_def p_def)
  have "nc < max_capacity" using cap by (simp add: nc_def)
  then have ncm: "nc < max_capacity" .
  moreover have "n < size_t_range"
    using n \<open>nc < max_capacity\<close> max_capacity_less_range by linarith
  moreover have "p < size_t_range" using room by (simp add: p_def)
  ultimately have f: "is_long m4 this" "l_ptr m4 this = p" "l_size m4 this = n"
    "l_capacity m4 this = nc" "\<And>x. \<not> (this \<le> x \<and> x < this + sizeof_Long) \<Longrightarrow> m4 x = m1 x"
    unfolding m4_def by (rule long_fields)+
  have "load_bytes m4 p n = load_bytes m1 p n"
    using below by (intro load_bytes_eqI f(5)) simp
  also have "\<dots> = old" using load_store_same [of "mem st" p old] by (simp add: m1_def old_def)
  finally have content: "load_bytes m4 p n = old" .
  have bytes: "String_bytes m4 this = String_bytes (mem st) this"
    using f(1-3) content by (simp add: String_bytes_def Data_size_def Data_data_def old_def n_def)
  have ok': "cell_ok st' this"
    using f n \<open>nc < max_capacity\<close> below
    by (simp add: cell_ok_def st'_def st2 apart_def)
  have frame: "m4 x = mem st x" if "x < p" "\<not> (this \<le> x \<and> x < this + sizeof_Long)" for x
    using that f(5) [of x] by (simp add: m1_def store_bytes_def)
  show ?thesis
    using run ok' bytes f(1,3,4) frame
    by (intro exI [of _ st'])
       (simp add: st'_def st2 Data_size_def Data_capacity_def n_def nc_def p_def)
qed

lemma tail_written:
  "load_bytes (store_bytes m (d + n) (bs @ [0])) d (n + length bs) = load_bytes m d n @ bs"
  by (rule nth_equalityI) (auto simp: store_bytes_def nth_append)

lemma load_word_eqI:
  "(\<And>i. i < sizeof_size_t \<Longrightarrow> m (a + i) = m' (a + i)) \<Longrightarrow> load_word m a = load_word m' a"
proof -
  assume "\<And>i. i < sizeof_size_t \<Longrightarrow> m (a + i) = m' (a + i)"
  then have "load_bytes m a sizeof_size_t = load_bytes m' a sizeof_size_t"
    by (rule load_bytes_eqI)
  then show ?thesis by (simp add: load_word_def)
qed

lemma Data_append_within:
  assumes ok: "cell_ok st this"
    and fits: "Data_size (mem st) this + length bs \<le> Data_capacity (mem st) this"
  shows "\<exists>st'. Data_append st this bs = Inr st' \<and> cell_ok st' this \<and>
           String_bytes (mem st') this = String_bytes (mem st) this @ bs \<and>
           Data_capacity (mem st') this = Data_capacity (mem st) this \<and> brk st' = brk st"
proof -
  define m where "m = mem st"
  define n where "n = Data_size m this"
  define d where "d = Data_data m this"
  define m1 where "m1 = store_bytes m (d + n) (bs @ [0])"
  define m2 where "m2 = set_size m1 this (n + length bs)"
  define st' where "st' = st\<lparr>mem := m2\<rparr>"
  have run: "Data_append st this bs = Inr st'"
    using fits
    by (simp add: Data_append_def Data_reserve_def Let_def st'_def m2_def m1_def d_def n_def m_def)
  have tail: "load_bytes m1 d (n + length bs) = load_bytes m d n @ bs"
    unfolding m1_def by (rule tail_written)
  show ?thesis
  proof (cases "is_long m this")
    case True
    have c: "l_size m this \<le> l_capacity m this" "l_capacity m this < max_capacity"
      "apart this sizeof_Long (l_ptr m this) (l_capacity m this + 1)"
      "l_ptr m this + l_capacity m this + 1 \<le> brk st" "this + sizeof_Long \<le> brk st"
      using ok True by (simp_all add: cell_ok_def m_def)
    have d: "d = l_ptr m this" "n = l_size m this" using True by (simp_all add: d_def n_def Data_data_def Data_size_def)
    have fit: "n + length bs \<le> l_capacity m this"
      using fits True by (simp add: n_def m_def Data_capacity_def)
    have cell1: "m1 x = m x" if "this \<le> x" "x < this + sizeof_Long" for x
      using that c(3) fit by (auto simp: m1_def store_bytes_def apart_def d)
    have w1: "load_word m1 (this + k) = load_word m (this + k)" if "k + sizeof_size_t \<le> sizeof_Long" for k
      using that by (intro load_word_eqI cell1) simp_all
    have long1: "is_long m1 this"
      using True cell1 [of "s_size_at this"] by (simp add: is_long_def s_size_def layout)
    then have m2: "m2 = store_word m1 (l_size_at this) (n + length bs)"
      by (simp add: m2_def set_size_def)
    have "m2 (s_size_at this) = m1 (s_size_at this)"
      unfolding m2 by (rule store_word_out) (simp add: layout)
    then have long2: "is_long m2 this" using long1 by (simp add: is_long_def s_size_def)
    have "n + length bs < size_t_range" using fit c(2) max_capacity_less_range by simp
    then have s2: "l_size m2 this = n + length bs"
      unfolding m2 l_size_def by (rule load_store_word_same)
    have "l_ptr m2 this = load_word m1 (l_ptr_at this)"
      unfolding m2 l_ptr_def by (rule load_store_word_apart) (simp add: apart_def layout)
    then have p2: "l_ptr m2 this = l_ptr m this" using w1 [of 0] by (simp add: l_ptr_def layout)
    have "l_capacity m2 this = load_word m1 (l_capacity_at this)"
      unfolding m2 l_capacity_def by (rule load_store_word_apart) (simp add: apart_def layout)
    then have c2: "l_capacity m2 this = l_capacity m this"
      using w1 [of "2 * sizeof_size_t"] by (simp add: l_capacity_def layout)
    have "m2 (d + i) = m1 (d + i)" if "i < n + length bs" for i
      unfolding m2
    proof (rule store_word_out)
      show "d + i < l_size_at this \<or> l_size_at this + sizeof_size_t \<le> d + i"
        using that c(3) fit by (auto simp: apart_def d layout)
    qed
    then have "load_bytes m2 d (n + length bs) = load_bytes m1 d (n + length bs)"
      by (intro load_bytes_eqI)
    then have bytes: "String_bytes m2 this = String_bytes m this @ bs"
      using tail long2 True s2 p2
      by (simp add: String_bytes_def Data_data_def Data_size_def d)
    have "cell_ok st' this"
      using long2 s2 p2 c2 c fit by (simp add: cell_ok_def st'_def)
    then show ?thesis
      using run bytes long2 True c2
      by (intro exI [of _ st']) (simp add: st'_def Data_capacity_def m_def)
  next
    case False
    have d: "d = this" using False by (simp add: d_def Data_data_def s_string_at_def)
    have fit: "n + length bs \<le> 22"
      using fits False by (simp add: n_def m_def Data_capacity_def layout)
    have "m1 (s_size_at this) = m (s_size_at this)"
      using fit by (simp add: m1_def store_bytes_def d layout)
    then have short1: "\<not> is_long m1 this" using False by (simp add: is_long_def s_size_def)
    then have m2: "m2 = m1(s_size_at this := of_nat (2 * (n + length bs) + 1))"
      by (simp add: m2_def set_size_def)
    have s: "s_size m2 this = of_nat (2 * (n + length bs) + 1)" by (simp add: m2 s_size_def)
    have short2: "\<not> is_long m2 this"
      unfolding is_long_def s using odd_byte [of "n + length bs"] by simp
    have size2: "Data_size m2 this = n + length bs"
      unfolding Data_size_def s using short2 half_byte [of "n + length bs"] fit by simp
    have "load_bytes m2 this (n + length bs) = load_bytes m1 this (n + length bs)"
      using fit by (intro load_bytes_eqI) (simp add: m2 layout)
    then have bytes: "String_bytes m2 this = String_bytes m this @ bs"
      using tail short2 False size2 d
      by (simp add: String_bytes_def Data_data_def s_string_at_def n_def)
    have "cell_ok st' this"
      using ok short2 size2 fit by (simp add: cell_ok_def st'_def layout)
    then show ?thesis
      using run bytes short2 False
      by (intro exI [of _ st']) (simp add: st'_def Data_capacity_def m_def)
  qed
qed

declare dump_loop.simps [simp del]

lemma length_String_bytes [simp]: "length (String_bytes m this) = Data_size m this"
  by (simp add: String_bytes_def)

lemma back_insert_within:
  assumes "cell_ok st this"
    and "Data_size (mem st) this + length bs \<le> Data_capacity (mem st) this"
  shows "\<exists>st'. back_insert st this bs = Inr st' \<and> cell_ok st' this \<and>
           String_bytes (mem st') this = String_bytes (mem st) this @ bs \<and>
           Data_capacity (mem st') this = Data_capacity (mem st) this \<and> brk st' = brk st"
  using assms
proof (induction bs arbitrary: st)
  case Nil
  then show ?case by simp
next
  case (Cons c cs)
  from Cons.prems have "Data_size (mem st) this + length [c] \<le> Data_capacity (mem st) this"
    by simp
  from Data_append_within [OF Cons.prems(1) this] obtain st1 where
    st1: "Data_append st this [c] = Inr st1" "cell_ok st1 this"
      "String_bytes (mem st1) this = String_bytes (mem st) this @ [c]"
      "Data_capacity (mem st1) this = Data_capacity (mem st) this" "brk st1 = brk st"
    by blast
  from st1(3) have "Data_size (mem st1) this = Data_size (mem st) this + 1"
    by (metis length_String_bytes length_append_singleton Suc_eq_plus1)
  with Cons.prems(2) st1(4)
  have "Data_size (mem st1) this + length cs \<le> Data_capacity (mem st1) this" by simp
  from Cons.IH [OF st1(2) this] obtain st' where
    "back_insert st1 this cs = Inr st'" "cell_ok st' this"
    "String_bytes (mem st') this = String_bytes (mem st1) this @ cs"
    "Data_capacity (mem st') this = Data_capacity (mem st1) this" "brk st' = brk st1"
    by blast
  with st1 show ?case
    by (intro exI [of _ st']) (simp add: String_push_back_def)
qed

lemma dump_loop_within:
  assumes "cell_ok st this" and "k = nat count" and "0 \<le> count"
    and "Data_size (mem st) this + k * length (dump cp) \<le> Data_capacity (mem st) this"
  shows "\<exists>st'. dump_loop dump st this cp count = Inr st' \<and> cell_ok st' this \<and>
           String_bytes (mem st') this =
             String_bytes (mem st) this @ concat (replicate k (dump cp)) \<and>
           brk st' = brk st"
  using assms
proof (induction k arbitrary: st count)
  case 0
  then have "count = 0" by simp
  then have "dump_loop dump st this cp count = Inr st"
    by (subst dump_loop.simps) (simp add: INT_MIN_def INT_MAX_def)
  with 0 show ?case by simp
next
  case (Suc k)
  then have pos: "0 < count" and k: "k = nat (count - 1)" "0 \<le> count - 1" by simp_all
  from Suc.prems(4)
  have "Data_size (mem st) this + length (dump cp) \<le> Data_capacity (mem st) this" by simp
  from back_insert_within [OF Suc.prems(1) this] obtain st1 where
    st1: "back_insert st this (dump cp) = Inr st1" "cell_ok st1 this"
      "String_bytes (mem st1) this = String_bytes (mem st) this @ dump cp"
      "Data_capacity (mem st1) this = Data_capacity (mem st) this" "brk st1 = brk st"
    by blast
  from st1(3) have "Data_size (mem st1) this = Data_size (mem st) this + length (dump cp)"
    by (metis length_String_bytes length_append)
  with Suc.prems(4) st1(4)
  have "Data_size (mem st1) this + k * length (dump cp) \<le> Data_capacity (mem st1) this" by simp
  from Suc.IH [OF st1(2) k this] obtain st' where
    st': "dump_loop dump st1 this cp (count - 1) = Inr st'" "cell_ok st' this"
      "String_bytes (mem st') this = String_bytes (mem st1) this @ concat (replicate k (dump cp))"
      "brk st' = brk st1"
    by blast
  have "dump_loop dump st this cp count = Inr st'"
    by (subst dump_loop.simps) (simp add: pos st1(1) st'(1))
  with st' st1 show ?case by (intro exI [of _ st']) simp
qed

lemma String_default_ok:
  assumes "this + sizeof_Long \<le> brk st"
  shows "cell_ok (String_default st this) this"
    and "String_bytes (mem (String_default st this)) this = []"
    and "Data_capacity (mem (String_default st this)) this = Short_capacity"
    and "brk (String_default st this) = brk st"
proof -
  have s: "s_size (mem (String_default st this)) this = 1"
    by (simp add: String_default_def set_empty_def s_size_def)
  then have short: "\<not> is_long (mem (String_default st this)) this" by (simp add: is_long_def)
  with s have z: "Data_size (mem (String_default st this)) this = 0" by (simp add: Data_size_def)
  show "cell_ok (String_default st this) this"
    using assms short z by (simp add: cell_ok_def) (simp add: String_default_def)
  show "String_bytes (mem (String_default st this)) this = []"
    using z by (simp add: String_bytes_def load_bytes_def)
  show "Data_capacity (mem (String_default st this)) this = Short_capacity"
    using short by (simp add: Data_capacity_def)
  show "brk (String_default st this) = brk st" by (simp add: String_default_def)
qed

lemma repeat_holds:
  assumes sz: "codepoint_size cp = int (length (dump cp))"
    and cell: "this + sizeof_Long \<le> brk st"
    and n: "0 \<le> n" and tot: "codepoint_size cp * n \<le> INT_MAX"
    and room: "brk st + 2 * Short_capacity + nat (codepoint_size cp * n) + 1 < size_t_range"
  shows "\<exists>st'. (case int_mul (codepoint_size cp) n of
                  Inl e \<Rightarrow> Inl e
                | Inr nbytes \<Rightarrow>
                    (case String_reserve (String_default st this) this nbytes of
                       Inl e \<Rightarrow> Inl e
                     | Inr st1 \<Rightarrow> dump_loop dump st1 this cp n)) = Inr st' \<and>
           cell_ok st' this \<and>
           String_bytes (mem st') this = utf8_bytes dump (replicate (nat n) cp) \<and>
           String_length (mem st') this = codepoint_size cp * n"
proof -
  define st0 where "st0 = String_default st this"
  define t where "t = codepoint_size cp * n"
  note d = String_default_ok [OF cell, folded st0_def]
  have t: "0 \<le> t" "t \<le> INT_MAX" "nat t = nat n * length (dump cp)"
    using sz n tot by (simp_all add: t_def nat_mult_distrib)
  then have mul: "int_mul (codepoint_size cp) n = Inr t"
    by (simp add: int_mul_def is_int_bounds INT_MAX_def t_def)
  have conv: "to_size_t t = nat t" using t by (simp add: to_size_t_nat)
  have "nat t < max_capacity" using t(1,2) int_max_less_capacity by (simp add: INT_MAX_def)
  moreover have "2 * Short_capacity < max_capacity"
    by (simp add: max_capacity_eq layout)
  ultimately have cap: "max (2 * Data_capacity (mem st0) this) (nat t) < max_capacity"
    by (simp add: d(3))
  have "max (2 * Short_capacity) (nat t) \<le> 2 * Short_capacity + nat t" by simp
  then have "brk st0 + max (2 * Data_capacity (mem st0) this) (nat t) + 1 < size_t_range"
    using room by (simp add: d(3,4) t_def)
  from Data_reserve_holds [OF d(1) cap this] obtain st1 where
    st1: "Data_reserve st0 this (nat t) = Inr st1" "cell_ok st1 this"
      "String_bytes (mem st1) this = String_bytes (mem st0) this"
      "Data_size (mem st1) this = Data_size (mem st0) this"
      "nat t \<le> Data_capacity (mem st1) this"
    by blast
  have empty: "String_bytes (mem st1) this = []" "Data_size (mem st1) this = 0"
    using st1(3) d(2) by (simp_all flip: length_String_bytes)
  then have "Data_size (mem st1) this + nat n * length (dump cp) \<le> Data_capacity (mem st1) this"
    using st1(5) t(3) by simp
  from dump_loop_within [of st1 this "nat n" n dump cp, OF st1(2) refl n this] obtain st' where
    st': "dump_loop dump st1 this cp n = Inr st'" "cell_ok st' this"
      "String_bytes (mem st') this =
         String_bytes (mem st1) this @ concat (replicate (nat n) (dump cp))"
    by blast
  have bytes: "String_bytes (mem st') this = utf8_bytes dump (replicate (nat n) cp)"
    using st'(3) empty by (simp add: utf8_bytes_def)
  have "Data_size (mem st') this = nat t"
    using bytes t(3) by (simp add: utf8_bytes_def length_concat sum_list_replicate
        flip: length_String_bytes)
  moreover have "is_int t" using t by (simp add: is_int_bounds INT_MAX_def)
  ultimately have "String_length (mem st') this = t"
    using t(1) by (simp add: String_length_def int_cast_id)
  then show ?thesis
    using mul conv st1(1) st'(1,2) bytes
    by (intro exI [of _ st']) (simp add: String_reserve_def st0_def t_def)
qed

lemma c_mod_sgn: "c_mod a b = sgn a * (\<bar>a\<bar> mod \<bar>b\<bar>)"
proof -
  have "a = sgn a * \<bar>a\<bar>" "b * sgn b = \<bar>b\<bar>" by (simp_all add: abs_sgn mult.commute)
  then have "c_mod a b = sgn a * \<bar>a\<bar> - sgn a * (\<bar>b\<bar> * (\<bar>a\<bar> div \<bar>b\<bar>))"
    by (metis c_mod_def c_div_def mult.assoc mult.left_commute)
  also have "\<dots> = sgn a * (\<bar>a\<bar> - \<bar>b\<bar> * (\<bar>a\<bar> div \<bar>b\<bar>))" by (simp add: right_diff_distrib)
  also have "\<bar>a\<bar> - \<bar>b\<bar> * (\<bar>a\<bar> div \<bar>b\<bar>) = \<bar>a\<bar> mod \<bar>b\<bar>" by (simp add: minus_mult_div_eq_mod)
  finally show ?thesis .
qed

lemma c_mod_zero_iff: "c_mod a b = 0 \<longleftrightarrow> b dvd a"
proof -
  have "c_mod a b = 0 \<longleftrightarrow> a = 0 \<or> \<bar>a\<bar> mod \<bar>b\<bar> = 0" by (simp add: c_mod_sgn sgn_eq_0_iff)
  also have "\<dots> \<longleftrightarrow> \<bar>b\<bar> dvd \<bar>a\<bar>" by (auto simp: mod_eq_0_iff_dvd)
  finally show ?thesis by simp
qed

lemma c_div_exact: "0 \<le> n \<Longrightarrow> 0 < w \<Longrightarrow> c_div (n * w) (max w 1) = n"
  by (cases "n = 0") (simp_all add: c_div_def sgn_mult abs_mult)

lemma counted:
  assumes bytes: "String_bytes m this = utf8_bytes dump cps"
    and len: "String_length m this = int (length (utf8_bytes dump cps))"
  shows "counts_characters dump distance \<Longrightarrow> char_length distance m this = int (length cps)"
    and "counts_columns dump width column_distance \<Longrightarrow>
           column_length column_distance m this = sum_list (map width cps)"
proof -
  define d where "d = String_data m this"
  have e: "end_of d (String_length m this) = d + length (utf8_bytes dump cps)"
    by (simp add: end_of_def ptr_add_def len)
  have "Data_size m this = length (utf8_bytes dump cps)"
    using bytes by (simp flip: length_String_bytes)
  then have l: "load_bytes m d (length (utf8_bytes dump cps)) = utf8_bytes dump cps"
    using bytes by (simp add: String_bytes_def d_def String_data_def)
  show "char_length distance m this = int (length cps)" if "counts_characters dump distance"
    using that l by (simp add: counts_characters_def char_length_def begin_of_def e
        d_def [symmetric])
  show "column_length column_distance m this = sum_list (map width cps)"
    if "counts_columns dump width column_distance"
    using that l by (simp add: counts_columns_def column_length_def begin_of_def e
        d_def [symmetric])
qed

lemma unat_small: "k < 256 \<Longrightarrow> unat (of_nat k :: byte) = k"
  by (simp add: unat_of_nat)

lemma utf8_dump_one_lead: "length (filter (\<lambda>c. \<not> is_continuation c) (utf8_dump cp)) = 1"
proof -
  have b: "cp mod 64 < 64" "cp div 64 mod 64 < 64" "cp div 4096 mod 64 < 64"
    "cp div 262144 mod 8 < 8"
    by simp_all
  have "cp div 64 < 32" if "cp < 2048" using that by simp
  moreover have "cp div 4096 < 16" if "cp < 65536" using that by simp
  ultimately show ?thesis
    using b by (simp add: utf8_dump_def is_continuation_def unat_small del: of_nat_add)
qed

lemma utf8_counts: "counts_characters utf8_dump utf8_distance"
proof -
  have "length (filter (\<lambda>c. \<not> is_continuation c) (utf8_bytes utf8_dump cps)) = length cps" for cps
    by (induction cps) (simp_all add: utf8_bytes_def utf8_dump_one_lead)
  then show ?thesis by (simp add: counts_characters_def utf8_distance_def)
qed

lemma utf8_columns: "counts_columns utf8_dump (\<lambda>cp. 1) utf8_distance"
  using utf8_counts by (simp add: counts_columns_def counts_characters_def sum_list_triv)

lemma utf8_size_dump: "utf8_codepoint_size cp = int (length (utf8_dump cp))"
  by (simp add: utf8_codepoint_size_def utf8_dump_def)

subsection \<open>Repeated codepoints\<close>

text \<open>
  C7, as the code has it. Let \<^verbatim>\<open>utf8::codepoint_size(cp)\<close> be the number of bytes
  \<^verbatim>\<open>utf8::dump\<close> writes for \<open>cp\<close>, the cell of the new string lie below the free store,
  the allocator have room, \<open>n \<ge> 0\<close>, and the \<open>n\<close> copies take at most \<open>INT_MAX\<close> bytes.
  Then \<^verbatim>\<open>String(cp, n)\<close> with a character count returns a string whose bytes are the
  encoding of \<open>n\<close> copies of \<open>cp\<close>, and whose \<^verbatim>\<open>char_length()\<close> is \<open>n\<close> when
  \<^verbatim>\<open>utf8::distance\<close> counts the characters of an encoding. For a width \<open>w > 0\<close> of
  \<open>cp\<close> and the column count \<open>n * w\<close>, \<^verbatim>\<open>String(cp, n * w)\<close> returns the same \<open>n\<close>
  copies, and its \<^verbatim>\<open>column_length()\<close> is \<open>n * w\<close> when \<^verbatim>\<open>utf8::column_distance\<close>
  sums the widths. For a width \<open>w \<noteq> 0\<close> that does not divide the column count, the
  constructor reports a contract violation.
\<close>

theorem repeated_codepoint:
  assumes "codepoint_size cp = int (length (dump cp))"
    and "this + sizeof_Long \<le> brk st"
    and "0 \<le> n" and "codepoint_size cp * n \<le> INT_MAX"
    and "brk st + 2 * Short_capacity + nat (codepoint_size cp * n) + 1 < size_t_range"
  shows "(\<exists>st'. String_repeat_char codepoint_size dump st this cp n = Inr st' \<and>
            String_bytes (mem st') this = utf8_bytes dump (replicate (nat n) cp) \<and>
            cell_ok st' this \<and>
            (counts_characters dump distance \<longrightarrow> char_length distance (mem st') this = n)) \<and>
         (0 < codepoint_width cp \<and> n * codepoint_width cp \<le> INT_MAX \<longrightarrow>
            (\<exists>st'. String_repeat_column codepoint_size dump codepoint_width st this cp
                     (n * codepoint_width cp) = Inr st' \<and>
               String_bytes (mem st') this = utf8_bytes dump (replicate (nat n) cp) \<and>
               cell_ok st' this \<and>
               (counts_columns dump codepoint_width column_distance \<longrightarrow>
                  column_length column_distance (mem st') this = n * codepoint_width cp))) \<and>
         (codepoint_width cp \<noteq> 0 \<and> \<not> codepoint_width cp dvd m \<longrightarrow>
            String_repeat_column codepoint_size dump codepoint_width st this cp m =
              Inl ContractViolation)"
proof -
  from repeat_holds [of codepoint_size cp dump this st n, OF assms] obtain st' where
    st': "(case int_mul (codepoint_size cp) n of
             Inl e \<Rightarrow> Inl e
           | Inr nbytes \<Rightarrow>
               (case String_reserve (String_default st this) this nbytes of
                  Inl e \<Rightarrow> Inl e
                | Inr st1 \<Rightarrow> dump_loop dump st1 this cp n)) = Inr st'"
      "cell_ok st' this" "String_bytes (mem st') this = utf8_bytes dump (replicate (nat n) cp)"
      "String_length (mem st') this = codepoint_size cp * n"
    by blast
  have "length (utf8_bytes dump (replicate (nat n) cp)) = nat n * length (dump cp)"
    by (simp add: utf8_bytes_def length_concat sum_list_replicate)
  then have len: "String_length (mem st') this = int (length (utf8_bytes dump (replicate (nat n) cp)))"
    using st'(4) assms(1,3) by (simp add: mult.commute)
  note c = counted [OF st'(3) len]
  have chars: "char_length distance (mem st') this = n" if "counts_characters dump distance"
    using c(1) [OF that] assms(3) by simp
  have cols: "column_length column_distance (mem st') this = n * codepoint_width cp"
    if "counts_columns dump codepoint_width column_distance"
    using c(2) [OF that] assms(3) by (simp add: sum_list_replicate)
  have first: "\<exists>st'. String_repeat_char codepoint_size dump st this cp n = Inr st' \<and>
            String_bytes (mem st') this = utf8_bytes dump (replicate (nat n) cp) \<and>
            cell_ok st' this \<and>
            (counts_characters dump distance \<longrightarrow> char_length distance (mem st') this = n)"
    using st' chars by (intro exI [of _ st']) (simp add: String_repeat_char_def)
  have second: "\<exists>st'. String_repeat_column codepoint_size dump codepoint_width st this cp
                     (n * codepoint_width cp) = Inr st' \<and>
               String_bytes (mem st') this = utf8_bytes dump (replicate (nat n) cp) \<and>
               cell_ok st' this \<and>
               (counts_columns dump codepoint_width column_distance \<longrightarrow>
                  column_length column_distance (mem st') this = n * codepoint_width cp)"
    if w: "0 < codepoint_width cp" "n * codepoint_width cp \<le> INT_MAX"
  proof -
    have "n \<le> n * codepoint_width cp" using w(1) assms(3) by (simp add: mult_le_cancel_left1)
    then have "is_int n" using w(2) assms(3) by (simp add: is_int_bounds INT_MAX_def)
    then have "int_cast (c_div (n * codepoint_width cp) (max (codepoint_width cp) 1)) = n"
      using c_div_exact [OF assms(3) w(1)] by (simp add: int_cast_id)
    moreover have "c_mod (n * codepoint_width cp) (codepoint_width cp) = 0"
      by (simp add: c_mod_zero_iff)
    ultimately show ?thesis
      using st' cols w(1)
      by (intro exI [of _ st']) (simp add: String_repeat_column_def Let_def)
  qed
  have third: "String_repeat_column codepoint_size dump codepoint_width st this cp m =
      Inl ContractViolation"
    if "codepoint_width cp \<noteq> 0" "\<not> codepoint_width cp dvd m"
    using that by (simp add: String_repeat_column_def Let_def c_mod_zero_iff)
  from first second third show ?thesis by blast
qed

theorem repeated_codepoint_witness:
  "(\<exists>st'. String_repeat_char utf8_codepoint_size utf8_dump st_hi 100 233 3 = Inr st' \<and>
       String_bytes (mem st') 100 = [195, 169, 195, 169, 195, 169] \<and>
       char_length utf8_distance (mem st') 100 = 3) \<and>
   (\<exists>st'. String_repeat_column utf8_codepoint_size utf8_dump (\<lambda>cp. 1) st_hi 100 233 3 = Inr st' \<and>
       String_bytes (mem st') 100 = [195, 169, 195, 169, 195, 169] \<and>
       column_length utf8_distance (mem st') 100 = 3) \<and>
   String_repeat_column utf8_codepoint_size utf8_dump (\<lambda>cp. 2) st_hi 100 233 3 =
     Inl ContractViolation"
proof -
  have h: "100 + sizeof_Long \<le> brk st_hi" "(0::int) \<le> 3" "utf8_codepoint_size 233 * 3 \<le> INT_MAX"
    "brk st_hi + 2 * Short_capacity + nat (utf8_codepoint_size 233 * 3) + 1 < size_t_range"
    by (simp_all add: st_hi_def layout INT_MAX_def utf8_codepoint_size_def size_t_range_def)
  have e: "utf8_bytes utf8_dump (replicate 3 233) = [195, 169, 195, 169, 195, 169]"
    by (simp add: utf8_bytes_def utf8_dump_def numeral_3_eq_3)
  note r = repeated_codepoint [of utf8_codepoint_size 233 utf8_dump 100 st_hi 3 utf8_distance _
      utf8_distance 3, OF utf8_size_dump h]
  from r [of "\<lambda>cp. 1"] utf8_counts utf8_columns
  have a: "\<exists>st'. String_repeat_char utf8_codepoint_size utf8_dump st_hi 100 233 3 = Inr st' \<and>
       String_bytes (mem st') 100 = [195, 169, 195, 169, 195, 169] \<and>
       char_length utf8_distance (mem st') 100 = 3"
    and b: "\<exists>st'. String_repeat_column utf8_codepoint_size utf8_dump (\<lambda>cp. 1) st_hi 100 233 3 = Inr st' \<and>
       String_bytes (mem st') 100 = [195, 169, 195, 169, 195, 169] \<and>
       column_length utf8_distance (mem st') 100 = 3"
    by (auto simp: e INT_MAX_def)
  from r [of "\<lambda>cp. 2"]
  have c: "String_repeat_column utf8_codepoint_size utf8_dump (\<lambda>cp. 2) st_hi 100 233 3 =
     Inl ContractViolation"
    by simp
  from a b c show ?thesis by blast
qed

text \<open>
  The claim as written, for every character count, fails where the copies no longer
  fit a \<^verbatim>\<open>ByteCount\<close>: the two-byte codepoint U+00E9 repeated \<open>2^30\<close> times takes \<open>2^31\<close>
  bytes, and the product \<^verbatim>\<open>utf8::codepoint_size(cp) * (int)count\<close> leaves the range of
  \<^verbatim>\<open>int\<close> before anything is reserved.
\<close>

theorem repeated_codepoint_counterexample:
  "String_repeat_char utf8_codepoint_size utf8_dump st_hi 100 233 1073741824 = Inl SignedOverflow"
  by (simp add: String_repeat_char_def int_mul_def is_int_bounds utf8_codepoint_size_def)

end
